theory Spec2Isabelle
  imports Complex_Main "HOL-Library.Word"
begin

section \<open>Data model (providers/types.ts, contract.ts)\<close>

text \<open>
  Text is a \<open>string\<close> (a list of 8-bit characters). A TypeScript \<open>number\<close> that passed the
  structural check is a finite number; it is modelled by the rational that its shortest
  decimal writing denotes, the one \<open>Number::toString\<close> prints and \<open>JSON.parse\<close> reads back as
  the same number (0.85 is \<open>17 / 20\<close>). Binary floating point itself is not modelled.
  An optional field (\<open>translator?: string\<close>) is an \<open>option\<close>: \<open>None\<close> is \<open>undefined\<close>.
  The fields \<open>id\<close> and \<open>method\<close> are called \<open>contract_id\<close> and \<open>contract_method\<close>, and the fields
  of the request carry the prefix
  \<open>in_\<close> (the source calls the request \<open>input\<close>), because HOL has one name space.
\<close>

datatype translation_method = human | machine | hybrid

record provenance_block =
  timestamp :: string
  tenant_id :: string
  signature :: string

record translation_contract =
  contract_id :: string
  workflow :: string
  flow :: string
  source_language :: string
  target_language :: string
  source_text :: string
  translated_text :: string
  translator :: "string option"
  contract_method :: translation_method
  confidence :: rat
  provenance :: provenance_block

record translation_contract_envelope =
  contract :: translation_contract

record translation_request_input =
  in_source_language :: string
  in_target_language :: string
  in_source_text :: string
  in_workflow :: string
  in_flow :: string
  in_tenant_id :: string
  in_method :: translation_method
  in_translator :: "string option"

text \<open>The one capability of a provider: \<open>translate(params)\<close> resolves or rejects.\<close>

record translate_params =
  p_source_language :: string
  p_target_language :: string
  p_text :: string

record provider_result =
  translatedText :: string
  result_confidence :: rat

text \<open>
  A thrown value: the class of the JavaScript error and its message. \<open>Error\<close> is what the
  repository throws itself; the other classes come from \<open>JSON.parse\<close> and from Deno.
\<close>

datatype exn =
    Error string
  | SyntaxError string
  | NotFound string
  | AlreadyExists string
  | IsADirectory string

fun message :: "exn \<Rightarrow> string" where
  "message (Error m) = m"
| "message (SyntaxError m) = m"
| "message (NotFound m) = m"
| "message (AlreadyExists m) = m"
| "message (IsADirectory m) = m"

type_synonym translation_provider = "translate_params \<Rightarrow> exn + provider_result"

text \<open>
  What the code reads from its runtime: the two clock readings (\<open>Date.now()\<close> and
  \<open>new Date().toISOString()\<close>), the digest of \<open>crypto.subtle\<close>, and the validator
  compiled from \<open>schema.json\<close>. The schema file is not among the sources, so the compiled
  validator is a parameter: it returns the list of AJV error texts
  (\<open>instancePath\<close>, a blank, \<open>message\<close>), empty when the envelope is structurally valid.
\<close>

record runtime =
  date_now :: nat
  date_iso :: string
  sha256 :: "string \<Rightarrow> 8 word list"
  schema :: "translation_contract_envelope \<Rightarrow> string list"
  contract_schema :: "translation_contract \<Rightarrow> string list"


section \<open>Decimal numerals\<close>

definition digit_char :: "nat \<Rightarrow> char" where
  "digit_char d = ''0123456789'' ! d"

function show_nat :: "nat \<Rightarrow> string" where
  "show_nat n = (if n < 10 then [digit_char n] else show_nat (n div 10) @ [digit_char (n mod 10)])"
  by pat_completeness auto
termination
  by (relation "measure (\<lambda>n. n)") auto

declare show_nat.simps [simp del]


section \<open>JSON values and \<open>JSON.stringify\<close>\<close>

datatype json =
    JNull
  | JBool bool
  | JNumber rat
  | JString string
  | JArray "json list"
  | JObject "(string \<times> json) list"

text \<open>
  \<open>QuoteJSONString\<close> of ECMAScript: the quote and the backslash are escaped, the five
  control characters with a short form use it, every other character below U+0020 is
  written as \<open>\u00XX\<close> in lower-case hexadecimal, and everything else is copied.
\<close>

definition hex_digit :: "nat \<Rightarrow> char" where
  "hex_digit d = ''0123456789abcdef'' ! d"

definition escape_char :: "char \<Rightarrow> string" where
  "escape_char c =
     (if c = CHR 0x22 then [CHR 0x5C, CHR 0x22]
      else if c = CHR 0x5C then [CHR 0x5C, CHR 0x5C]
      else if c = CHR 0x08 then [CHR 0x5C, CHR ''b'']
      else if c = CHR 0x09 then [CHR 0x5C, CHR ''t'']
      else if c = CHR 0x0A then [CHR 0x5C, CHR ''n'']
      else if c = CHR 0x0C then [CHR 0x5C, CHR ''f'']
      else if c = CHR 0x0D then [CHR 0x5C, CHR ''r'']
      else if of_char c < (32::nat)
        then [CHR 0x5C, CHR ''u'', CHR ''0'', CHR ''0'',
              hex_digit (of_char c div 16), hex_digit (of_char c mod 16)]
      else [c])"

definition quote_json_string :: "string \<Rightarrow> string" where
  "quote_json_string s = [CHR 0x22] @ concat (map escape_char s) @ [CHR 0x22]"

text \<open>
  \<open>Number::toString\<close> of ECMAScript, on the decimal a number is written as:
  \<open>s\<close> are its \<open>k\<close> significant digits and \<open>n\<close> the position of the decimal point, so
  that the value is \<open>s * 10 ^ (n - k)\<close>.
\<close>

fun find_scale :: "nat \<Rightarrow> rat \<Rightarrow> nat \<Rightarrow> nat" where
  "find_scale 0 x e = e"
| "find_scale (Suc fuel) x e =
     (if x * 10 ^ e = of_int \<lfloor>x * 10 ^ e\<rfloor> then e else find_scale fuel x (Suc e))"

function strip_zeros :: "nat \<Rightarrow> nat \<times> nat" where
  "strip_zeros m =
     (if m \<noteq> 0 \<and> m mod 10 = 0
      then (case strip_zeros (m div 10) of (s, z) \<Rightarrow> (s, Suc z))
      else (m, 0))"
  by pat_completeness auto
termination
  by (relation "measure (\<lambda>m. m)") auto

declare strip_zeros.simps [simp del]

definition show_exponent :: "int \<Rightarrow> string" where
  "show_exponent ex = (if ex < 0 then ''-'' else ''+'') @ show_nat (nat \<bar>ex\<bar>)"

definition format_digits :: "string \<Rightarrow> int \<Rightarrow> string" where
  "format_digits ds n =
     (let k = int (length ds) in
      if k \<le> n \<and> n \<le> 21 then ds @ replicate (nat (n - k)) CHR ''0''
      else if 0 < n \<and> n \<le> 21 then take (nat n) ds @ ''.'' @ drop (nat n) ds
      else if - 6 < n \<and> n \<le> 0 then ''0.'' @ replicate (nat (- n)) CHR ''0'' @ ds
      else if k = 1 then ds @ ''e'' @ show_exponent (n - 1)
      else take 1 ds @ ''.'' @ drop 1 ds @ ''e'' @ show_exponent (n - 1))"

definition show_positive :: "rat \<Rightarrow> string" where
  "show_positive x =
     (let e = find_scale 400 x 0;
          m = nat \<lfloor>x * 10 ^ e\<rfloor>;
          (s, z) = strip_zeros m;
          ds = show_nat s
      in format_digits ds (int (length ds) + int z - int e))"

definition show_number :: "rat \<Rightarrow> string" where
  "show_number x =
     (if x = 0 then ''0''
      else if x < 0 then ''-'' @ show_positive (- x)
      else show_positive x)"

definition join :: "string \<Rightarrow> string list \<Rightarrow> string" where
  "join sep xs = (case xs of [] \<Rightarrow> [] | y # ys \<Rightarrow> y @ concat (map (\<lambda>z. sep @ z) ys))"

fun JSON_stringify :: "json \<Rightarrow> string" where
  "JSON_stringify JNull = ''null''"
| "JSON_stringify (JBool b) = (if b then ''true'' else ''false'')"
| "JSON_stringify (JNumber x) = show_number x"
| "JSON_stringify (JString s) = quote_json_string s"
| "JSON_stringify (JArray vs) = ''['' @ join '','' (map JSON_stringify vs) @ '']''"
| "JSON_stringify (JObject ms) =
     ''{'' @ join '','' (map (\<lambda>(k, v). quote_json_string k @ '':'' @ JSON_stringify v) ms) @ ''}''"


section \<open>Identity and hash utility (utils/hash.ts, utils/time.ts)\<close>

text \<open>\<open>b.toString(16).padStart(2, '0')\<close> on a byte of the digest.\<close>

definition byte_hex :: "8 word \<Rightarrow> string" where
  "byte_hex b = [hex_digit (unat b div 16), hex_digit (unat b mod 16)]"

definition generateHash :: "runtime \<Rightarrow> string \<Rightarrow> string" where
  "generateHash rt input = concat (map byte_hex (sha256 rt input))"

text \<open>The text that \<open>generateContractId\<close> hashes: the content, an underscore, the clock.\<close>

definition combined :: "runtime \<Rightarrow> string \<Rightarrow> string" where
  "combined rt content = content @ ''_'' @ show_nat (date_now rt)"

definition generateContractId :: "runtime \<Rightarrow> string \<Rightarrow> string" where
  "generateContractId rt content = ''trans_'' @ take 6 (generateHash rt (combined rt content))"

definition generateTimestamp :: "runtime \<Rightarrow> string" where
  "generateTimestamp rt = date_iso rt"


section \<open>Contract builder of the pipeline (translate.ts)\<close>

definition ENABLE_SIGNING :: bool where
  "ENABLE_SIGNING = False"

definition buildProvenance :: "runtime \<Rightarrow> string \<Rightarrow> provenance_block" where
  "buildProvenance rt tenant =
     \<lparr>timestamp = generateTimestamp rt,
      tenant_id = tenant,
      signature = (if ENABLE_SIGNING then ''<todo-signature>'' else [])\<rparr>"

text \<open>The content that the pipeline hands to \<open>generateContractId\<close>.\<close>

definition id_content :: "translation_request_input \<Rightarrow> string" where
  "id_content input =
     in_source_language input @ ''_'' @ in_target_language input @ ''_'' @ in_source_text input"

definition buildContract ::
  "runtime \<Rightarrow> translation_request_input \<Rightarrow> string \<Rightarrow> rat \<Rightarrow> translation_contract" where
  "buildContract rt input text conf =
     \<lparr>contract_id = generateContractId rt (id_content input),
      workflow = in_workflow input,
      flow = in_flow input,
      source_language = in_source_language input,
      target_language = in_target_language input,
      source_text = in_source_text input,
      translated_text = text,
      translator = in_translator input,
      contract_method = in_method input,
      confidence = conf,
      provenance = buildProvenance rt (in_tenant_id input)\<rparr>"


section \<open>File system\<close>

text \<open>
  The part of the file system the ledger touches: the text of every regular file and the
  set of directories. The Deno operations return the thrown error or the new state.
\<close>

record fs =
  files :: "string \<rightharpoonup> string"
  dirs :: "string set"

text \<open>\<open>p.substring(0, p.lastIndexOf("/"))\<close>: \<open>lastIndexOf\<close> is \<open>-1\<close> without a slash.\<close>

fun lastIndexOf :: "string \<Rightarrow> char \<Rightarrow> int" where
  "lastIndexOf [] c = - 1"
| "lastIndexOf (x # xs) c =
     (let i = lastIndexOf xs c in
      if i \<noteq> - 1 then i + 1 else if x = c then 0 else - 1)"

definition substring0 :: "string \<Rightarrow> int \<Rightarrow> string" where
  "substring0 s i = take (nat i) s"

definition parent_dir :: "string \<Rightarrow> string" where
  "parent_dir p = substring0 p (lastIndexOf p CHR ''/'')"

definition Deno_mkdir_recursive :: "string \<Rightarrow> fs \<Rightarrow> exn + fs" where
  "Deno_mkdir_recursive d st =
     (if d = [] then Inl (NotFound ''No such file or directory'')
      else if files st d \<noteq> None then Inl (AlreadyExists ''File exists'')
      else Inr (st\<lparr>dirs := insert d (dirs st)\<rparr>))"

definition Deno_writeTextFile :: "string \<Rightarrow> string \<Rightarrow> bool \<Rightarrow> bool \<Rightarrow> fs \<Rightarrow> exn + fs" where
  "Deno_writeTextFile p data append_opt create_opt st =
     (if p \<in> dirs st then Inl (IsADirectory ''Is a directory'')
      else if parent_dir p \<noteq> [] \<and> parent_dir p \<notin> dirs st
        then Inl (NotFound ''No such file or directory'')
      else (case files st p of
              None \<Rightarrow>
                if create_opt then Inr (st\<lparr>files := (files st)(p \<mapsto> data)\<rparr>)
                else Inl (NotFound ''No such file or directory'')
            | Some old \<Rightarrow>
                Inr (st\<lparr>files := (files st)(p \<mapsto> (if append_opt then old else []) @ data)\<rparr>)))"

definition Deno_readTextFile :: "string \<Rightarrow> fs \<Rightarrow> exn + string" where
  "Deno_readTextFile p st =
     (case files st p of
        Some text \<Rightarrow> Inr text
      | None \<Rightarrow>
          if p \<in> dirs st then Inl (IsADirectory ''Is a directory'')
          else Inl (NotFound ''No such file or directory''))"


section \<open>Ledger store: validation and append (ledger.ts)\<close>

definition LEDGER_PATH :: string where
  "LEDGER_PATH = ''./output/contracts.ndjson''"

text \<open>\<open>!contract.translator\<close>: the field is \<open>undefined\<close> or the empty string.\<close>

definition falsy :: "string option \<Rightarrow> bool" where
  "falsy t = (case t of None \<Rightarrow> True | Some s \<Rightarrow> s = [])"

definition single_quoted :: "string \<Rightarrow> string" where
  "single_quoted s = [CHR 0x27] @ s @ [CHR 0x27]"

definition translator_required :: exn where
  "translator_required =
     Error (''translator field is required when method is '' @ single_quoted ''human''
            @ '' or '' @ single_quoted ''hybrid'')"

definition confidence_range :: exn where
  "confidence_range = Error ''confidence must be between 0.0 and 1.0''"

definition validateEnvelope :: "runtime \<Rightarrow> translation_contract_envelope \<Rightarrow> exn + unit" where
  "validateEnvelope rt envelope =
     (let errors = schema rt envelope in
      if errors \<noteq> []
        then Inl (Error (''Invalid translation contract envelope: '' @ join '', '' errors))
      else
        let c = contract envelope in
        if (contract_method c = human \<or> contract_method c = hybrid) \<and> falsy (translator c)
          then Inl translator_required
        else if confidence c < 0 \<or> confidence c > 1
          then Inl confidence_range
        else Inr ())"

text \<open>
  What \<open>JSON.stringify\<close> walks through: the own properties of the envelope in the order
  in which the object holds them; a property whose value is \<open>undefined\<close> is left out. The
  envelope that reaches \<open>saveLedgerEntry\<close> is the one \<open>buildContract\<close> of translate.ts
  creates, with \<open>translator\<close> between \<open>translated_text\<close> and \<open>method\<close>.
\<close>

definition method_name :: "translation_method \<Rightarrow> string" where
  "method_name m = (case m of human \<Rightarrow> ''human'' | machine \<Rightarrow> ''machine'' | hybrid \<Rightarrow> ''hybrid'')"

definition provenance_json :: "provenance_block \<Rightarrow> json" where
  "provenance_json p =
     JObject [(''timestamp'', JString (timestamp p)),
              (''tenant_id'', JString (tenant_id p)),
              (''signature'', JString (signature p))]"

definition contract_json :: "translation_contract \<Rightarrow> json" where
  "contract_json c =
     JObject ([(''id'', JString (contract_id c)),
               (''workflow'', JString (workflow c)),
               (''flow'', JString (flow c)),
               (''source_language'', JString (source_language c)),
               (''target_language'', JString (target_language c)),
               (''source_text'', JString (source_text c)),
               (''translated_text'', JString (translated_text c))]
              @ (case translator c of None \<Rightarrow> [] | Some t \<Rightarrow> [(''translator'', JString t)])
              @ [(''method'', JString (method_name (contract_method c))),
                 (''confidence'', JNumber (confidence c)),
                 (''provenance'', provenance_json (provenance c))])"

definition envelope_json :: "translation_contract_envelope \<Rightarrow> json" where
  "envelope_json envelope = JObject [(''contract'', contract_json (contract envelope))]"

definition ledger_line :: "translation_contract_envelope \<Rightarrow> string" where
  "ledger_line envelope = JSON_stringify (envelope_json envelope) @ [CHR 0x0A]"

definition write_failed :: "exn \<Rightarrow> exn" where
  "write_failed e = Error (''Failed to write to ledger: '' @ message e)"

definition saveLedgerEntry ::
  "runtime \<Rightarrow> translation_contract_envelope \<Rightarrow> fs \<Rightarrow> (exn + unit) \<times> fs" where
  "saveLedgerEntry rt envelope st =
     (case validateEnvelope rt envelope of
        Inl e \<Rightarrow> (Inl e, st)
      | Inr _ \<Rightarrow>
          let line = ledger_line envelope;
              dir = parent_dir LEDGER_PATH
          in (case Deno_mkdir_recursive dir st of
                Inl e \<Rightarrow> (Inl (write_failed e), st)
              | Inr st1 \<Rightarrow>
                  (case Deno_writeTextFile LEDGER_PATH line True True st1 of
                     Inl e \<Rightarrow> (Inl (write_failed e), st1)
                   | Inr st2 \<Rightarrow> (Inr (), st2))))"


section \<open>\<open>JSON.parse\<close>\<close>

text \<open>
  The grammar of JSON texts as \<open>JSON.parse\<close> accepts it. White space is the blank, the
  tab, the line feed and the carriage return. A number is read with its exact value. A
  \<open>\uXXXX\<close> escape stands for one character; of a code above FF only the low byte is
  kept, since characters here have 8 bits. The parser carries fuel, one unit for each
  nested call; \<open>JSON_parse\<close> starts it with the length of the text plus one, which is enough
  for every text that \<open>JSON_stringify\<close> writes (lemma \<open>JSON_parse_stringify\<close>).
\<close>

definition is_json_ws :: "char \<Rightarrow> bool" where
  "is_json_ws c \<longleftrightarrow> c = CHR 0x20 \<or> c = CHR 0x09 \<or> c = CHR 0x0A \<or> c = CHR 0x0D"

definition skip_ws :: "string \<Rightarrow> string" where
  "skip_ws cs = dropWhile is_json_ws cs"

definition is_digit :: "char \<Rightarrow> bool" where
  "is_digit c \<longleftrightarrow> (48::nat) \<le> of_char c \<and> of_char c \<le> (57::nat)"

definition digit_val :: "char \<Rightarrow> nat" where
  "digit_val c = of_char c - 48"

definition read_nat :: "string \<Rightarrow> nat" where
  "read_nat ds = foldl (\<lambda>a c. 10 * a + digit_val c) 0 ds"

definition hex_val :: "char \<Rightarrow> nat option" where
  "hex_val c =
     (let n = (of_char c :: nat) in
      if 48 \<le> n \<and> n \<le> 57 then Some (n - 48)
      else if 97 \<le> n \<and> n \<le> 102 then Some (n - 87)
      else if 65 \<le> n \<and> n \<le> 70 then Some (n - 55)
      else None)"

definition unescape :: "char \<Rightarrow> char option" where
  "unescape e =
     (if e = CHR 0x22 then Some (CHR 0x22)
      else if e = CHR 0x5C then Some (CHR 0x5C)
      else if e = CHR ''/'' then Some (CHR ''/'')
      else if e = CHR ''b'' then Some (CHR 0x08)
      else if e = CHR ''f'' then Some (CHR 0x0C)
      else if e = CHR ''n'' then Some (CHR 0x0A)
      else if e = CHR ''r'' then Some (CHR 0x0D)
      else if e = CHR ''t'' then Some (CHR 0x09)
      else None)"

definition hex4 :: "char \<Rightarrow> char \<Rightarrow> char \<Rightarrow> char \<Rightarrow> char option" where
  "hex4 h1 h2 h3 h4 =
     (case (hex_val h1, hex_val h2, hex_val h3, hex_val h4) of
        (Some a, Some b, Some c, Some d) \<Rightarrow> Some (char_of (((a * 16 + b) * 16 + c) * 16 + d))
      | _ \<Rightarrow> None)"

definition cons_char :: "char \<Rightarrow> (string \<times> string) option \<Rightarrow> (string \<times> string) option" where
  "cons_char c r = (case r of None \<Rightarrow> None | Some (s, rest) \<Rightarrow> Some (c # s, rest))"

text \<open>The characters of a string after its opening quote, up to the closing quote.\<close>

fun string_body :: "string \<Rightarrow> (string \<times> string) option" where
  "string_body [] = None"
| "string_body (c # cs) =
     (if c = CHR 0x22 then Some ([], cs)
      else if c = CHR 0x5C then
        (case cs of
           [] \<Rightarrow> None
         | e # es \<Rightarrow>
             if e = CHR ''u'' then
               (case es of
                  h1 # h2 # h3 # h4 # rest \<Rightarrow>
                    (case hex4 h1 h2 h3 h4 of
                       None \<Rightarrow> None
                     | Some ch \<Rightarrow> cons_char ch (string_body rest))
                | _ \<Rightarrow> None)
             else
               (case unescape e of
                  None \<Rightarrow> None
                | Some ch \<Rightarrow> cons_char ch (string_body es)))
      else if of_char c < (32::nat) then None
      else cons_char c (string_body cs))"

definition pow10 :: "int \<Rightarrow> rat" where
  "pow10 ex = (if 0 \<le> ex then 10 ^ nat ex else 1 / 10 ^ nat (- ex))"

definition parse_exponent :: "string \<Rightarrow> (int \<times> string) option" where
  "parse_exponent cs =
     (case cs of
        [] \<Rightarrow> Some (0, cs)
      | c # r \<Rightarrow>
          if c = CHR ''e'' \<or> c = CHR ''E'' then
            (let (sg, r1) =
                   (case r of
                      [] \<Rightarrow> (1, r)
                    | s # t \<Rightarrow>
                        if s = CHR ''+'' then (1, t)
                        else if s = CHR ''-'' then (- 1, t)
                        else (1, r));
                 ds = takeWhile is_digit r1
             in if ds = [] then None
                else Some (sg * int (read_nat ds), dropWhile is_digit r1))
          else Some (0, cs))"

definition parse_fraction :: "string \<Rightarrow> (string \<times> string) option" where
  "parse_fraction cs =
     (case cs of
        [] \<Rightarrow> Some ([], cs)
      | c # r \<Rightarrow>
          if c = CHR ''.'' then
            (if takeWhile is_digit r = [] then None
             else Some (takeWhile is_digit r, dropWhile is_digit r))
          else Some ([], cs))"

definition parse_unsigned :: "bool \<Rightarrow> string \<Rightarrow> (rat \<times> string) option" where
  "parse_unsigned neg cs =
     (let ip = takeWhile is_digit cs;
          r1 = dropWhile is_digit cs
      in if ip = [] \<or> (1 < length ip \<and> hd ip = CHR ''0'') then None
         else
           (case parse_fraction r1 of
              None \<Rightarrow> None
            | Some (fp, r2) \<Rightarrow>
                (case parse_exponent r2 of
                   None \<Rightarrow> None
                 | Some (ex, r3) \<Rightarrow>
                     Some ((if neg then - 1 else 1)
                             * (of_nat (read_nat ip) + of_nat (read_nat fp) / 10 ^ length fp)
                             * pow10 ex,
                           r3))))"

definition parse_number :: "string \<Rightarrow> (rat \<times> string) option" where
  "parse_number cs =
     (case cs of
        [] \<Rightarrow> None
      | c # r \<Rightarrow> if c = CHR ''-'' then parse_unsigned True r else parse_unsigned False cs)"

definition parse_literal :: "string \<Rightarrow> json \<Rightarrow> string \<Rightarrow> (json \<times> string) option" where
  "parse_literal word v cs =
     (if take (length word) cs = word then Some (v, drop (length word) cs) else None)"

fun parse_value :: "nat \<Rightarrow> string \<Rightarrow> (json \<times> string) option"
  and parse_elements :: "nat \<Rightarrow> string \<Rightarrow> (json list \<times> string) option"
  and parse_members :: "nat \<Rightarrow> string \<Rightarrow> ((string \<times> json) list \<times> string) option" where
  "parse_value 0 cs = None"
| "parse_value (Suc n) cs =
     (case skip_ws cs of
        [] \<Rightarrow> None
      | c # r \<Rightarrow>
          if c = CHR ''{'' then
            (case skip_ws r of
               [] \<Rightarrow> None
             | d # r1 \<Rightarrow>
                 if d = CHR ''}'' then Some (JObject [], r1)
                 else (case parse_members n r of
                         None \<Rightarrow> None
                       | Some (ms, r2) \<Rightarrow> Some (JObject ms, r2)))
          else if c = CHR ''['' then
            (case skip_ws r of
               [] \<Rightarrow> None
             | d # r1 \<Rightarrow>
                 if d = CHR '']'' then Some (JArray [], r1)
                 else (case parse_elements n r of
                         None \<Rightarrow> None
                       | Some (vs, r2) \<Rightarrow> Some (JArray vs, r2)))
          else if c = CHR 0x22 then
            (case string_body r of
               None \<Rightarrow> None
             | Some (s, r1) \<Rightarrow> Some (JString s, r1))
          else if c = CHR ''t'' then parse_literal ''true'' (JBool True) (c # r)
          else if c = CHR ''f'' then parse_literal ''false'' (JBool False) (c # r)
          else if c = CHR ''n'' then parse_literal ''null'' JNull (c # r)
          else (case parse_number (c # r) of
                  None \<Rightarrow> None
                | Some (x, r1) \<Rightarrow> Some (JNumber x, r1)))"
| "parse_elements 0 cs = None"
| "parse_elements (Suc n) cs =
     (case parse_value n cs of
        None \<Rightarrow> None
      | Some (v, r) \<Rightarrow>
          (case skip_ws r of
             [] \<Rightarrow> None
           | d # r1 \<Rightarrow>
               if d = CHR '','' then
                 (case parse_elements n r1 of
                    None \<Rightarrow> None
                  | Some (vs, r2) \<Rightarrow> Some (v # vs, r2))
               else if d = CHR '']'' then Some ([v], r1)
               else None))"
| "parse_members 0 cs = None"
| "parse_members (Suc n) cs =
     (case skip_ws cs of
        [] \<Rightarrow> None
      | q # r \<Rightarrow>
          if q \<noteq> CHR 0x22 then None
          else
            (case string_body r of
               None \<Rightarrow> None
             | Some (k, r1) \<Rightarrow>
                 (case skip_ws r1 of
                    [] \<Rightarrow> None
                  | colon # r2 \<Rightarrow>
                      if colon \<noteq> CHR '':'' then None
                      else
                        (case parse_value n r2 of
                           None \<Rightarrow> None
                         | Some (v, r3) \<Rightarrow>
                             (case skip_ws r3 of
                                [] \<Rightarrow> None
                              | d # r4 \<Rightarrow>
                                  if d = CHR '','' then
                                    (case parse_members n r4 of
                                       None \<Rightarrow> None
                                     | Some (ms, r5) \<Rightarrow> Some ((k, v) # ms, r5))
                                  else if d = CHR ''}'' then Some ([(k, v)], r4)
                                  else None)))))"

definition JSON_parse :: "string \<Rightarrow> exn + json" where
  "JSON_parse text =
     (case parse_value (Suc (length text)) text of
        None \<Rightarrow> Inl (SyntaxError ''Unexpected token in JSON'')
      | Some (v, rest) \<Rightarrow>
          if skip_ws rest = [] then Inr v
          else Inl (SyntaxError ''Unexpected token in JSON''))"


section \<open>Ledger store: read-back (ledger.ts, contract.ts)\<close>

text \<open>
  \<open>String.prototype.trim\<close> removes white space and line terminators at both ends; among
  the 8-bit characters these are the tab, the line feed, the vertical tab, the form feed,
  the carriage return, the blank and the no-break space.
\<close>

definition is_js_space :: "char \<Rightarrow> bool" where
  "is_js_space c \<longleftrightarrow>
     c = CHR 0x09 \<or> c = CHR 0x0A \<or> c = CHR 0x0B \<or> c = CHR 0x0C \<or> c = CHR 0x0D
     \<or> c = CHR 0x20 \<or> c = CHR 0xA0"

definition trim :: "string \<Rightarrow> string" where
  "trim s = rev (dropWhile is_js_space (rev (dropWhile is_js_space s)))"

text \<open>\<open>s.split("\n")\<close>: the pieces between the separators; the empty text gives one piece.\<close>

fun split :: "char \<Rightarrow> string \<Rightarrow> string list" where
  "split sep [] = [[]]"
| "split sep (c # cs) =
     (if c = sep then [] # split sep cs
      else (case split sep cs of
              [] \<Rightarrow> [[c]]
            | l # ls \<Rightarrow> (c # l) # ls))"

definition ledger_lines :: "string \<Rightarrow> string list" where
  "ledger_lines content = filter (\<lambda>line. 0 < length line) (split (CHR 0x0A) (trim content))"

text \<open>\<open>lines.map(line => JSON.parse(line))\<close>: the first line that fails ends the whole map.\<close>

fun parse_lines :: "string list \<Rightarrow> exn + json list" where
  "parse_lines [] = Inr []"
| "parse_lines (l # ls) =
     (case JSON_parse l of
        Inl e \<Rightarrow> Inl e
      | Inr v \<Rightarrow>
          (case parse_lines ls of
             Inl e \<Rightarrow> Inl e
           | Inr vs \<Rightarrow> Inr (v # vs)))"

fun is_NotFound :: "exn \<Rightarrow> bool" where
  "is_NotFound (NotFound m) = True"
| "is_NotFound e = False"

definition readLedger :: "fs \<Rightarrow> string \<Rightarrow> exn + json list" where
  "readLedger st ledgerPath =
     (case (case Deno_readTextFile ledgerPath st of
              Inl e \<Rightarrow> Inl e
            | Inr content \<Rightarrow> parse_lines (ledger_lines content)) of
        Inl e \<Rightarrow> if is_NotFound e then Inr [] else Inl e
      | Inr envelopes \<Rightarrow> Inr envelopes)"


section \<open>Pipeline orchestrator (translate.ts)\<close>

text \<open>
  The state the pipeline acts on: the file system, and the log of the calls made to the
  provider (each call appends the parameters it was given).
\<close>

record world =
  disk :: fs
  provider_calls :: "translate_params list"

definition translate_params_of :: "translation_request_input \<Rightarrow> translate_params" where
  "translate_params_of input =
     \<lparr>p_source_language = in_source_language input,
      p_target_language = in_target_language input,
      p_text = in_source_text input\<rparr>"

definition translateRequest ::
  "runtime \<Rightarrow> translation_provider \<Rightarrow> translation_request_input \<Rightarrow> world
     \<Rightarrow> (exn + translation_contract_envelope) \<times> world" where
  "translateRequest rt provider input w =
     (let params = translate_params_of input;
          w1 = w\<lparr>provider_calls := provider_calls w @ [params]\<rparr>
      in (case provider params of
            Inl e \<Rightarrow> (Inl e, w1)
          | Inr r \<Rightarrow>
              let c = buildContract rt input (translatedText r) (result_confidence r);
                  envelope = \<lparr>contract = c\<rparr>
              in (case saveLedgerEntry rt envelope (disk w1) of
                    (Inl e, st) \<Rightarrow> (Inl e, w1\<lparr>disk := st\<rparr>)
                  | (Inr _, st) \<Rightarrow> (Inr envelope, w1\<lparr>disk := st\<rparr>))))"


section \<open>The earlier builder and validator (contract.ts)\<close>

record build_contract_params =
  bp_workflow :: string
  bp_flow :: string
  bp_source_language :: string
  bp_target_language :: string
  bp_source_text :: string
  bp_translated_text :: string
  bp_method :: translation_method
  bp_confidence :: rat
  bp_tenant_id :: string
  bp_translator :: "string option"
  bp_signature :: "string option"

definition validateContract :: "runtime \<Rightarrow> translation_contract \<Rightarrow> exn + unit" where
  "validateContract rt c =
     (let errors = contract_schema rt c in
      if errors \<noteq> []
        then Inl (Error (''Invalid translation contract: '' @ join '', '' errors))
      else if (contract_method c = human \<or> contract_method c = hybrid) \<and> falsy (translator c)
        then Inl translator_required
      else if confidence c < 0 \<or> confidence c > 1
        then Inl confidence_range
      else Inr ())"

definition contentForId :: "build_contract_params \<Rightarrow> string" where
  "contentForId params =
     bp_source_text params @ ''_'' @ bp_target_language params @ ''_'' @ bp_workflow params
       @ ''_'' @ bp_flow params"

text \<open>
  \<open>params.signature || ""\<close> and \<open>if (params.translator) contract.translator = ...\<close>: a falsy
  translator (undefined or empty) leaves the field unset.
\<close>

definition contract_buildContract ::
  "runtime \<Rightarrow> build_contract_params \<Rightarrow> exn + translation_contract" where
  "contract_buildContract rt params =
     (let c = \<lparr>contract_id = generateContractId rt (contentForId params),
               workflow = bp_workflow params,
               flow = bp_flow params,
               source_language = bp_source_language params,
               target_language = bp_target_language params,
               source_text = bp_source_text params,
               translated_text = bp_translated_text params,
               translator = (if falsy (bp_translator params) then None else bp_translator params),
               contract_method = bp_method params,
               confidence = bp_confidence params,
               provenance =
                 \<lparr>timestamp = generateTimestamp rt,
                  tenant_id = bp_tenant_id params,
                  signature = (case bp_signature params of None \<Rightarrow> [] | Some s \<Rightarrow> s)\<rparr>\<rparr>
      in (case validateContract rt c of
            Inl e \<Rightarrow> Inl e
          | Inr _ \<Rightarrow> Inr c))"

text \<open>
  The object that \<open>buildContract\<close> of contract.ts holds: the properties of its literal in
  their order, and \<open>translator\<close>, when it is given, added after them.
\<close>

definition legacy_contract_json :: "translation_contract \<Rightarrow> json" where
  "legacy_contract_json c =
     JObject ([(''id'', JString (contract_id c)),
               (''workflow'', JString (workflow c)),
               (''flow'', JString (flow c)),
               (''source_language'', JString (source_language c)),
               (''target_language'', JString (target_language c)),
               (''source_text'', JString (source_text c)),
               (''translated_text'', JString (translated_text c)),
               (''method'', JString (method_name (contract_method c))),
               (''confidence'', JNumber (confidence c)),
               (''provenance'', provenance_json (provenance c))]
              @ (case translator c of None \<Rightarrow> [] | Some t \<Rightarrow> [(''translator'', JString t)]))"


section \<open>The earlier writers (contract.ts, the first ledger.ts)\<close>

text \<open>
  \<open>saveLedgerEntry\<close> of contract.ts takes the contract and the path of the ledger (by
  default the path of \<open>LEDGER_PATH\<close>). It reads no property of the contract: it creates the
  directory of the path, serialises the object and appends the line. Its argument is
  therefore the object as it is held, a JSON value with its properties in their own order.
  Nothing is validated, and an error of Deno is thrown as it is.
\<close>

definition contract_saveLedgerEntry :: "json \<Rightarrow> string \<Rightarrow> fs \<Rightarrow> (exn + unit) \<times> fs" where
  "contract_saveLedgerEntry contract_object ledgerPath st =
     (let dir = parent_dir ledgerPath
      in (case Deno_mkdir_recursive dir st of
            Inl e \<Rightarrow> (Inl e, st)
          | Inr st1 \<Rightarrow>
              let line = JSON_stringify contract_object @ [CHR 0x0A]
              in (case Deno_writeTextFile ledgerPath line True True st1 of
                    Inl e \<Rightarrow> (Inl e, st1)
                  | Inr st2 \<Rightarrow> (Inr (), st2))))"

text \<open>
  \<open>saveLedgerEntry\<close> of the first ledger.ts (unnamed/part_008): the envelope is serialised
  and appended; there is no validation and no directory is created.
\<close>

definition earlier_saveLedgerEntry :: "json \<Rightarrow> fs \<Rightarrow> (exn + unit) \<times> fs" where
  "earlier_saveLedgerEntry envelope_object st =
     (let line = JSON_stringify envelope_object @ [CHR 0x0A]
      in (case Deno_writeTextFile LEDGER_PATH line True True st of
            Inl e \<Rightarrow> (Inl (write_failed e), st)
          | Inr st1 \<Rightarrow> (Inr (), st1)))"


section \<open>Sample inputs\<close>

text \<open>
  A runtime for concrete evaluation. The digest is a stand-in with the length of a SHA-256
  digest (32 bytes). Modelled from the spec: \<open>schema.json\<close> is not among the sources; it asks
  for every field to be present with its primitive type and for the method to be one of the
  three allowed values, which every value of the record types above satisfies, so the
  sample validator reports no error.
\<close>

definition sample_digest :: "string \<Rightarrow> 8 word list" where
  "sample_digest s = map (\<lambda>i. of_nat (length s + 7 * i)) [0..<32]"

definition sample_runtime :: runtime where
  "sample_runtime =
     \<lparr>date_now = 1763059440123,
      date_iso = ''2025-11-13T18:44:00.123Z'',
      sha256 = sample_digest,
      schema = (\<lambda>envelope. []),
      contract_schema = (\<lambda>c. [])\<rparr>"

definition sample_provenance :: provenance_block where
  "sample_provenance =
     \<lparr>timestamp = ''2025-11-13T18:44:00.123Z'', tenant_id = ''test_tenant'', signature = []\<rparr>"

definition sample_contract :: translation_contract where
  "sample_contract =
     \<lparr>contract_id = ''trans_f2a7c8'',
      workflow = ''test_workflow'',
      flow = ''test_flow'',
      source_language = ''en'',
      target_language = ''pt'',
      source_text = ''Hello world'',
      translated_text = ''Ola mundo'',
      translator = None,
      contract_method = machine,
      confidence = 19 / 20,
      provenance = sample_provenance\<rparr>"

definition sample_envelope :: translation_contract_envelope where
  "sample_envelope = \<lparr>contract = sample_contract\<rparr>"

definition sample_request :: translation_request_input where
  "sample_request =
     \<lparr>in_source_language = ''en'',
      in_target_language = ''pt'',
      in_source_text = ''Hello world'',
      in_workflow = ''test_workflow'',
      in_flow = ''test_flow'',
      in_tenant_id = ''test_tenant'',
      in_method = machine,
      in_translator = None\<rparr>"

text \<open>The fixture provider of the tests: a fixed answer, or a simulated failure.\<close>

definition fixed_provider :: translation_provider where
  "fixed_provider params = Inr \<lparr>translatedText = ''Ola mundo'', result_confidence = 19 / 20\<rparr>"

definition failing_provider :: translation_provider where
  "failing_provider params = Inl (Error ''Mock translation failed (simulated)'')"

definition empty_fs :: fs where
  "empty_fs = \<lparr>files = Map.empty, dirs = {}\<rparr>"

definition empty_world :: world where
  "empty_world = \<lparr>disk = empty_fs, provider_calls = []\<rparr>"


definition out_of_range_envelope :: translation_contract_envelope where
  "out_of_range_envelope = \<lparr>contract = sample_contract\<lparr>confidence := 3 / 2\<rparr>\<rparr>"

definition bad_human_contract :: translation_contract where
  "bad_human_contract = sample_contract\<lparr>contract_method := human, confidence := 3 / 2\<rparr>"

definition human_request :: translation_request_input where
  "human_request = sample_request\<lparr>in_method := human\<rparr>"

text \<open>The input of the test \<open>validateContract - deve rejeitar confidence invalida\<close>.\<close>

definition out_of_range_params :: build_contract_params where
  "out_of_range_params =
     \<lparr>bp_workflow = ''test'', bp_flow = ''test'', bp_source_language = ''en'',
      bp_target_language = ''pt'', bp_source_text = ''test'', bp_translated_text = ''teste'',
      bp_method = machine, bp_confidence = 3 / 2, bp_tenant_id = ''test'',
      bp_translator = None, bp_signature = None\<rparr>"


section \<open>Validity of an envelope\<close>

text \<open>
  The two business rules in the words of the specification, on an envelope the schema
  accepts.
\<close>

definition business_rules_hold :: "translation_contract \<Rightarrow> bool" where
  "business_rules_hold c \<longleftrightarrow>
     0 \<le> confidence c \<and> confidence c \<le> 1
     \<and> ((contract_method c = human \<or> contract_method c = hybrid) \<longrightarrow> \<not> falsy (translator c))"

definition valid_envelope :: "runtime \<Rightarrow> translation_contract_envelope \<Rightarrow> bool" where
  "valid_envelope rt envelope \<longleftrightarrow>
     schema rt envelope = [] \<and> business_rules_hold (contract envelope)"

text \<open>The text of the ledger file before an append; an absent file has none.\<close>

definition prior_content :: "fs \<Rightarrow> string" where
  "prior_content st = (case files st LEDGER_PATH of None \<Rightarrow> [] | Some text \<Rightarrow> text)"



section \<open>Character classes\<close>

definition hex_chars :: "char set" where
  "hex_chars = set ''0123456789abcdef''"

definition number_chars :: "char set" where
  "number_chars = set ''0123456789.e+-''"

text \<open>
  The composition of the identifier in the words of the specification: source text, target
  language, workflow and flow, joined as \<open>contentForId\<close> of contract.ts joins them.
\<close>

definition spec_id_content :: "translation_request_input \<Rightarrow> string" where
  "spec_id_content input =
     in_source_text input @ ''_'' @ in_target_language input @ ''_'' @ in_workflow input
       @ ''_'' @ in_flow input"


section \<open>Reading back what was appended\<close>

text \<open>The one error \<open>JSON_parse\<close> raises, and the value of a line that parses.\<close>

definition syntax_error :: exn where
  "syntax_error = SyntaxError ''Unexpected token in JSON''"

definition parsed :: "string \<Rightarrow> json" where
  "parsed line = (case JSON_parse line of Inr v \<Rightarrow> v | Inl e \<Rightarrow> JNull)"

text \<open>
  A number survives the conversion to text and back: what \<open>JSON.parse\<close> reads from the
  text \<open>JSON.stringify\<close> writes for it is the number itself. ECMAScript guarantees this for
  every finite number; here it is proved for every decimal number.
\<close>

definition number_round_trips :: "rat \<Rightarrow> bool" where
  "number_round_trips x \<longleftrightarrow> JSON_parse (show_number x) = Inr (JNumber x)"

text \<open>
  A decimal number: some power of ten, with an exponent of at most 400, makes it an integer.
  Every number of JavaScript is one; the printer then writes all its digits.
\<close>

definition decimal :: "rat \<Rightarrow> bool" where
  "decimal x \<longleftrightarrow>
     \<bar>x\<bar> * 10 ^ find_scale 400 \<bar>x\<bar> 0 = of_int \<lfloor>\<bar>x\<bar> * 10 ^ find_scale 400 \<bar>x\<bar> 0\<rfloor>"

text \<open>The exponent part of a number text, and the sign the parser applies.\<close>

definition exponent_text :: "int \<Rightarrow> string" where
  "exponent_text ex = ''e'' @ show_exponent ex"

definition sign_of :: "bool \<Rightarrow> rat" where
  "sign_of neg = (if neg then - 1 else 1)"

definition ends_number :: "char \<Rightarrow> bool" where
  "ends_number c \<longleftrightarrow> c = CHR '','' \<or> c = CHR ''}'' \<or> c = CHR '']''"






text \<open>Fuel that is enough to parse the serialised contract.\<close>

definition fuel5 :: "nat \<Rightarrow> nat" where
  "fuel5 n = Suc (Suc (Suc (Suc (Suc n))))"

definition fuel20 :: "nat \<Rightarrow> nat" where
  "fuel20 n = fuel5 (fuel5 (fuel5 (fuel5 n)))"

text \<open>A sequence of appends, one \<open>saveLedgerEntry\<close> after the other; the first failure ends it.\<close>

fun append_all :: "runtime \<Rightarrow> translation_contract_envelope list \<Rightarrow> fs \<Rightarrow> (exn + unit) \<times> fs" where
  "append_all rt [] st = (Inr (), st)"
| "append_all rt (envelope # rest) st =
     (case saveLedgerEntry rt envelope st of
        (Inl e, st1) \<Rightarrow> (Inl e, st1)
      | (Inr u, st1) \<Rightarrow> append_all rt rest st1)"

definition lines_text :: "string list \<Rightarrow> string" where
  "lines_text ls = concat (map (\<lambda>l. l @ [CHR 0x0A]) ls)"

definition framed :: "string \<Rightarrow> bool" where
  "framed l \<longleftrightarrow> (\<exists>body. l = CHR ''{'' # body @ [CHR ''}'']) \<and> CHR 0x0A \<notin> set l"

definition ledger_absent_or_empty :: "fs \<Rightarrow> bool" where
  "ledger_absent_or_empty st \<longleftrightarrow>
     (files st LEDGER_PATH = None \<and> LEDGER_PATH \<notin> dirs st) \<or> files st LEDGER_PATH = Some []"

text \<open>
  Reading the fields of a parsed envelope (\<open>envelope.contract.id\<close> and so on): a property
  that is absent reads as \<open>undefined\<close>.
\<close>

definition method_of_name :: "string \<Rightarrow> translation_method option" where
  "method_of_name s =
     (if s = ''human'' then Some human
      else if s = ''machine'' then Some machine
      else if s = ''hybrid'' then Some hybrid
      else None)"

definition string_field :: "string \<Rightarrow> json \<Rightarrow> string option" where
  "string_field k j =
     (case j of
        JObject ms \<Rightarrow> (case map_of ms k of Some (JString s) \<Rightarrow> Some s | _ \<Rightarrow> None)
      | _ \<Rightarrow> None)"

definition number_field :: "string \<Rightarrow> json \<Rightarrow> rat option" where
  "number_field k j =
     (case j of
        JObject ms \<Rightarrow> (case map_of ms k of Some (JNumber x) \<Rightarrow> Some x | _ \<Rightarrow> None)
      | _ \<Rightarrow> None)"

definition object_field :: "string \<Rightarrow> json \<Rightarrow> json option" where
  "object_field k j = (case j of JObject ms \<Rightarrow> map_of ms k | _ \<Rightarrow> None)"

definition envelope_of_json :: "json \<Rightarrow> translation_contract_envelope option" where
  "envelope_of_json j =
     (case object_field ''contract'' j of
        None \<Rightarrow> None
      | Some c \<Rightarrow>
          (case object_field ''provenance'' c of
             None \<Rightarrow> None
           | Some p \<Rightarrow>
               (case (string_field ''id'' c, string_field ''workflow'' c, string_field ''flow'' c,
                      string_field ''source_language'' c, string_field ''target_language'' c,
                      string_field ''source_text'' c, string_field ''translated_text'' c,
                      string_field ''method'' c, number_field ''confidence'' c,
                      string_field ''timestamp'' p, string_field ''tenant_id'' p,
                      string_field ''signature'' p) of
                  (Some i, Some w, Some f, Some sl, Some tg, Some sx, Some tt, Some m, Some x,
                   Some ts, Some tn, Some sg) \<Rightarrow>
                    (case method_of_name m of
                       None \<Rightarrow> None
                     | Some mt \<Rightarrow>
                         Some \<lparr>contract =
                           \<lparr>contract_id = i, workflow = w, flow = f, source_language = sl,
                            target_language = tg, source_text = sx, translated_text = tt,
                            translator = string_field ''translator'' c, contract_method = mt,
                            confidence = x,
                            provenance = \<lparr>timestamp = ts, tenant_id = tn, signature = sg\<rparr>\<rparr>\<rparr>)
                | _ \<Rightarrow> None)))"

text \<open>Sample ledgers.\<close>

definition reviewed_envelope :: translation_contract_envelope where
  "reviewed_envelope =
     \<lparr>contract = sample_contract\<lparr>contract_id := ''trans_0b1c2d'',
        translator := Some ''john.doe@example.com'', contract_method := human,
        confidence := 17 / 20\<rparr>\<rparr>"

definition broken_text :: string where
  "broken_text = ''{}'' @ [CHR 0x0A] @ ''[1'' @ [CHR 0x0A]"

definition broken_ledger :: fs where
  "broken_ledger = \<lparr>files = [LEDGER_PATH \<mapsto> broken_text], dirs = {''./output''}\<rparr>"

definition unvalidated_text :: string where
  "unvalidated_text = ''{}'' @ [CHR 0x0A] @ ''42'' @ [CHR 0x0A] @ ledger_line out_of_range_envelope"

definition unvalidated_ledger :: fs where
  "unvalidated_ledger = \<lparr>files = [LEDGER_PATH \<mapsto> unvalidated_text], dirs = {''./output''}\<rparr>"







text \<open>A ledger that holds one line already, and the path of the ledger of the tests.\<close>

definition stocked_ledger :: fs where
  "stocked_ledger = \<lparr>files = [LEDGER_PATH \<mapsto> ''{}'' @ [CHR 0x0A]], dirs = {''./output''}\<rparr>"



section \<open>Validation\<close>

lemma validateEnvelope_ok_iff:
  "validateEnvelope rt envelope = Inr () \<longleftrightarrow> valid_envelope rt envelope"
  by (auto simp: validateEnvelope_def valid_envelope_def business_rules_hold_def Let_def)

lemma validateEnvelope_cases:
  "validateEnvelope rt envelope = Inr () \<or> (\<exists>e. validateEnvelope rt envelope = Inl e)"
  by (cases "validateEnvelope rt envelope") auto

lemma validateContract_ok_iff:
  "validateContract rt c = Inr () \<longleftrightarrow> contract_schema rt c = [] \<and> business_rules_hold c"
  by (auto simp: validateContract_def business_rules_hold_def Let_def)

lemma validateContract_same_rules:
  "contract_schema rt (contract envelope) = [] \<Longrightarrow> schema rt envelope = [] \<Longrightarrow>
     validateContract rt (contract envelope) = validateEnvelope rt envelope"
  by (simp add: validateContract_def validateEnvelope_def Let_def)

lemma sample_envelope_valid: "valid_envelope sample_runtime sample_envelope"
  by (simp add: valid_envelope_def business_rules_hold_def sample_runtime_def
      sample_envelope_def sample_contract_def)

text \<open>
  Claim C7, as the code has it. On an envelope the schema accepts, the business rules
  succeed exactly when the confidence lies in the closed interval from 0 to 1 and, for the
  methods human and hybrid, the translator is present and not empty. The translator rule
  is checked first: a missing or empty translator under human or hybrid fails with the
  error whose message starts with the word translator, whatever the confidence is. A
  confidence out of range fails with the error that cites the range when the translator
  rule holds.
\<close>

theorem business_rules_outcome:
  assumes "schema rt envelope = []"
  shows "(validateEnvelope rt envelope = Inr () \<longleftrightarrow>
            0 \<le> confidence (contract envelope) \<and> confidence (contract envelope) \<le> 1
            \<and> ((contract_method (contract envelope) = human \<or> contract_method (contract envelope) = hybrid)
                 \<longrightarrow> translator (contract envelope) \<noteq> None \<and> translator (contract envelope) \<noteq> Some []))
         \<and> (((contract_method (contract envelope) = human \<or> contract_method (contract envelope) = hybrid)
               \<and> falsy (translator (contract envelope)))
               \<longrightarrow> validateEnvelope rt envelope = Inl translator_required)
         \<and> ((\<not> ((contract_method (contract envelope) = human \<or> contract_method (contract envelope) = hybrid)
                  \<and> falsy (translator (contract envelope)))
               \<and> (confidence (contract envelope) < 0 \<or> 1 < confidence (contract envelope)))
               \<longrightarrow> validateEnvelope rt envelope = Inl confidence_range)
         \<and> take 10 (message translator_required) = ''translator''
         \<and> message confidence_range = ''confidence must be between 0.0 and 1.0''"
  using assms
  by (auto simp: validateEnvelope_def Let_def falsy_def translator_required_def
      confidence_range_def split: option.splits)

theorem business_rules_outcome_witness:
  "schema sample_runtime sample_envelope = []
   \<and> validateEnvelope sample_runtime sample_envelope = Inr ()
   \<and> schema sample_runtime out_of_range_envelope = []
   \<and> validateEnvelope sample_runtime out_of_range_envelope = Inl confidence_range"
  using business_rules_outcome [of sample_runtime sample_envelope]
    business_rules_outcome [of sample_runtime out_of_range_envelope]
  by (simp add: sample_runtime_def sample_envelope_def out_of_range_envelope_def
      sample_contract_def falsy_def)

text \<open>
  The claim as it is written fails where both rules are broken: the method is human, the
  translator is missing and the confidence is 1.5. The schema accepts the envelope, the
  confidence is out of range, and the error is the one about the translator, not the one
  that cites the range.
\<close>

theorem range_error_counterexample:
  "schema sample_runtime \<lparr>contract = bad_human_contract\<rparr> = []
   \<and> 1 < confidence (contract \<lparr>contract = bad_human_contract\<rparr>)
   \<and> validateEnvelope sample_runtime \<lparr>contract = bad_human_contract\<rparr> = Inl translator_required
   \<and> validateEnvelope sample_runtime \<lparr>contract = bad_human_contract\<rparr> \<noteq> Inl confidence_range"
  by (simp add: validateEnvelope_def sample_runtime_def bad_human_contract_def sample_contract_def
      falsy_def translator_required_def confidence_range_def single_quoted_def)


section \<open>The append is gated by validation\<close>

lemma parent_dir_LEDGER_PATH: "parent_dir LEDGER_PATH = ''./output''"
  by (simp add: parent_dir_def LEDGER_PATH_def substring0_def)

lemma LEDGER_PATH_not_dir: "LEDGER_PATH \<noteq> ''./output''"
  by (simp add: LEDGER_PATH_def)

lemma saveLedgerEntry_invalid:
  "validateEnvelope rt envelope = Inl e \<Longrightarrow> saveLedgerEntry rt envelope st = (Inl e, st)"
  by (simp add: saveLedgerEntry_def)

lemma saveLedgerEntry_valid:
  assumes "valid_envelope rt envelope"
  shows "saveLedgerEntry rt envelope st =
           (if files st ''./output'' \<noteq> None
              then (Inl (write_failed (AlreadyExists ''File exists'')), st)
            else if LEDGER_PATH \<in> dirs st
              then (Inl (write_failed (IsADirectory ''Is a directory'')),
                    st\<lparr>dirs := insert ''./output'' (dirs st)\<rparr>)
            else (Inr (),
                  st\<lparr>dirs := insert ''./output'' (dirs st),
                     files := (files st)(LEDGER_PATH \<mapsto> prior_content st @ ledger_line envelope)\<rparr>))"
proof -
  have "validateEnvelope rt envelope = Inr ()"
    using assms validateEnvelope_ok_iff by simp
  then show ?thesis
    by (auto simp: saveLedgerEntry_def parent_dir_LEDGER_PATH Deno_mkdir_recursive_def
        Deno_writeTextFile_def Let_def LEDGER_PATH_not_dir prior_content_def
        split: option.splits)
qed

lemma earlier_writers_outcome:
  "fst (contract_saveLedgerEntry obj path st) = Inr () \<longleftrightarrow>
     parent_dir path \<noteq> [] \<and> files st (parent_dir path) = None
     \<and> path \<noteq> parent_dir path \<and> path \<notin> dirs st"
  "fst (earlier_saveLedgerEntry obj st) = Inr () \<longleftrightarrow>
     LEDGER_PATH \<notin> dirs st \<and> parent_dir LEDGER_PATH \<in> dirs st"
  by (auto simp: contract_saveLedgerEntry_def earlier_saveLedgerEntry_def
      Deno_mkdir_recursive_def Deno_writeTextFile_def Let_def parent_dir_LEDGER_PATH
      split: if_splits option.splits)

text \<open>
  Claim C2, as amended. \<open>saveLedgerEntry\<close> of ledger.ts, the writer of the pipeline,
  validates the envelope before it touches the file system: an envelope that is not valid
  (by the schema and the business rules) makes the call fail with the validation error and
  leaves the whole file system as it was; the file system changes, and the call succeeds,
  only for a valid envelope. The two earlier writers validate nothing: whether
  \<open>saveLedgerEntry\<close> of contract.ts or of the first ledger.ts appends is the same for every
  object they are given.
\<close>

theorem saveLedgerEntry_validates_first:
  "(\<not> valid_envelope rt envelope \<longrightarrow>
      (\<exists>e. validateEnvelope rt envelope = Inl e \<and> saveLedgerEntry rt envelope st = (Inl e, st)))
   \<and> (snd (saveLedgerEntry rt envelope st) \<noteq> st \<longrightarrow> valid_envelope rt envelope)
   \<and> (fst (saveLedgerEntry rt envelope st) = Inr () \<longrightarrow> valid_envelope rt envelope)
   \<and> (fst (contract_saveLedgerEntry obj path st) = Inr ())
       = (fst (contract_saveLedgerEntry other path st) = Inr ())
   \<and> (fst (earlier_saveLedgerEntry obj st) = Inr ())
       = (fst (earlier_saveLedgerEntry other st) = Inr ())"
proof -
  have gate: "(\<not> valid_envelope rt envelope \<longrightarrow>
      (\<exists>e. validateEnvelope rt envelope = Inl e \<and> saveLedgerEntry rt envelope st = (Inl e, st)))
   \<and> (snd (saveLedgerEntry rt envelope st) \<noteq> st \<longrightarrow> valid_envelope rt envelope)
   \<and> (fst (saveLedgerEntry rt envelope st) = Inr () \<longrightarrow> valid_envelope rt envelope)"
  proof (cases "validateEnvelope rt envelope")
    case (Inl e)
    then have "\<not> valid_envelope rt envelope"
      using validateEnvelope_ok_iff [of rt envelope] by simp
    with Inl show ?thesis
      by (simp add: saveLedgerEntry_invalid)
  next
    case (Inr u)
    then have "valid_envelope rt envelope"
      using validateEnvelope_ok_iff [of rt envelope] by simp
    then show ?thesis by simp
  qed
  have c: "(fst (contract_saveLedgerEntry obj path st) = Inr ())
             = (fst (contract_saveLedgerEntry other path st) = Inr ())"
    by (simp only: earlier_writers_outcome(1))
  have d: "(fst (earlier_saveLedgerEntry obj st) = Inr ())
             = (fst (earlier_saveLedgerEntry other st) = Inr ())"
    by (simp only: earlier_writers_outcome(2))
  from gate c d show ?thesis by blast
qed

theorem saveLedgerEntry_validates_first_witness:
  "\<not> valid_envelope sample_runtime out_of_range_envelope
   \<and> saveLedgerEntry sample_runtime out_of_range_envelope empty_fs = (Inl confidence_range, empty_fs)
   \<and> snd (saveLedgerEntry sample_runtime sample_envelope empty_fs) \<noteq> empty_fs
   \<and> valid_envelope sample_runtime sample_envelope"
proof -
  have inv: "validateEnvelope sample_runtime out_of_range_envelope = Inl confidence_range"
    by (simp add: validateEnvelope_def sample_runtime_def out_of_range_envelope_def
        sample_contract_def falsy_def)
  have bad: "\<not> valid_envelope sample_runtime out_of_range_envelope"
    by (simp add: valid_envelope_def business_rules_hold_def out_of_range_envelope_def)
  have "dirs (snd (saveLedgerEntry sample_runtime sample_envelope empty_fs)) \<noteq> dirs empty_fs"
    by (simp add: saveLedgerEntry_valid [OF sample_envelope_valid] empty_fs_def LEDGER_PATH_def)
  then have chg: "snd (saveLedgerEntry sample_runtime sample_envelope empty_fs) \<noteq> empty_fs"
    by auto
  have "\<exists>e. validateEnvelope sample_runtime out_of_range_envelope = Inl e
          \<and> saveLedgerEntry sample_runtime out_of_range_envelope empty_fs = (Inl e, empty_fs)"
    using saveLedgerEntry_validates_first [of sample_runtime out_of_range_envelope empty_fs] bad
    by blast
  with inv have r1: "saveLedgerEntry sample_runtime out_of_range_envelope empty_fs
                      = (Inl confidence_range, empty_fs)"
    by simp
  have r2: "valid_envelope sample_runtime sample_envelope"
    using saveLedgerEntry_validates_first [of sample_runtime sample_envelope empty_fs] chg
    by blast
  from bad r1 chg r2 show ?thesis by blast
qed


lemma stocked_ledger_facts:
  "files stocked_ledger ''./output'' = None" "LEDGER_PATH \<notin> dirs stocked_ledger"
  "prior_content stocked_ledger = ''{}'' @ [CHR 0x0A]"
  "parent_dir LEDGER_PATH \<in> dirs stocked_ledger"
  by (simp_all add: stocked_ledger_def LEDGER_PATH_def prior_content_def parent_dir_def
      substring0_def)

text \<open>
  Claim C2 as it is written names the two earlier writers as well, and they validate
  nothing. \<open>saveLedgerEntry\<close> of contract.ts appends a contract that \<open>validateContract\<close>
  rejects (method human, no translator, confidence 1.5) to a ledger that was absent, and
  \<open>saveLedgerEntry\<close> of the first ledger.ts appends an envelope that \<open>validateEnvelope\<close>
  rejects: both calls succeed and the ledger file is changed.
\<close>

theorem unvalidated_append_counterexample:
  "validateContract sample_runtime bad_human_contract = Inl translator_required
   \<and> fst (contract_saveLedgerEntry (legacy_contract_json bad_human_contract) LEDGER_PATH empty_fs)
       = Inr ()
   \<and> files empty_fs LEDGER_PATH = None
   \<and> files (snd (contract_saveLedgerEntry (legacy_contract_json bad_human_contract) LEDGER_PATH
                    empty_fs)) LEDGER_PATH
       = Some (JSON_stringify (legacy_contract_json bad_human_contract) @ [CHR 0x0A])
   \<and> validateEnvelope sample_runtime out_of_range_envelope = Inl confidence_range
   \<and> fst (earlier_saveLedgerEntry (envelope_json out_of_range_envelope) stocked_ledger) = Inr ()
   \<and> files (snd (earlier_saveLedgerEntry (envelope_json out_of_range_envelope) stocked_ledger))
         LEDGER_PATH
       = Some (''{}'' @ [CHR 0x0A] @ JSON_stringify (envelope_json out_of_range_envelope)
               @ [CHR 0x0A])"
proof -
  have v1: "validateContract sample_runtime bad_human_contract = Inl translator_required"
    by (simp add: validateContract_def sample_runtime_def bad_human_contract_def
        sample_contract_def falsy_def)
  have v2: "validateEnvelope sample_runtime out_of_range_envelope = Inl confidence_range"
    by (simp add: validateEnvelope_def sample_runtime_def out_of_range_envelope_def
        sample_contract_def falsy_def)
  have w1: "contract_saveLedgerEntry (legacy_contract_json bad_human_contract) LEDGER_PATH empty_fs
              = (Inr (), empty_fs\<lparr>dirs := insert ''./output'' (dirs empty_fs),
                   files := (files empty_fs)(LEDGER_PATH \<mapsto>
                     JSON_stringify (legacy_contract_json bad_human_contract) @ [CHR 0x0A])\<rparr>)"
    by (simp add: contract_saveLedgerEntry_def Deno_mkdir_recursive_def Deno_writeTextFile_def
        parent_dir_LEDGER_PATH LEDGER_PATH_not_dir empty_fs_def)
  have w2: "earlier_saveLedgerEntry (envelope_json out_of_range_envelope) stocked_ledger
              = (Inr (), stocked_ledger\<lparr>files := (files stocked_ledger)(LEDGER_PATH \<mapsto>
                   ''{}'' @ [CHR 0x0A] @ JSON_stringify (envelope_json out_of_range_envelope)
                     @ [CHR 0x0A])\<rparr>)"
    using stocked_ledger_facts
    by (simp add: earlier_saveLedgerEntry_def Deno_writeTextFile_def parent_dir_LEDGER_PATH
        stocked_ledger_def)
  have n: "files empty_fs LEDGER_PATH = None" by (simp add: empty_fs_def)
  show ?thesis
    unfolding w1 w2 using v1 v2 n by simp
qed


section \<open>The pipeline\<close>

text \<open>
  Claim C1, as the code has it. For a request whose method is human or hybrid and whose
  translator is missing or empty, \<open>translateRequest\<close> fails and leaves the file system, and
  so the ledger file, as it was. It does not fail before the provider is called: the
  provider is invoked once, with the parameters of the request, and the rejection comes
  from the provider or from the validation inside \<open>saveLedgerEntry\<close>.
\<close>

theorem translateRequest_missing_translator:
  assumes "in_method input = human \<or> in_method input = hybrid"
    and "in_translator input = None \<or> in_translator input = Some []"
  shows "(\<exists>e. fst (translateRequest rt provider input w) = Inl e)
         \<and> disk (snd (translateRequest rt provider input w)) = disk w
         \<and> provider_calls (snd (translateRequest rt provider input w))
             = provider_calls w @ [translate_params_of input]"
proof (cases "provider (translate_params_of input)")
  case (Inl e)
  then show ?thesis by (simp add: translateRequest_def Let_def)
next
  case (Inr r)
  let ?env = "\<lparr>contract = buildContract rt input (translatedText r) (result_confidence r)\<rparr>"
  have "\<not> valid_envelope rt ?env"
    using assms by (auto simp: valid_envelope_def business_rules_hold_def buildContract_def falsy_def)
  then obtain e where "validateEnvelope rt ?env = Inl e"
    using validateEnvelope_ok_iff [of rt ?env] validateEnvelope_cases [of rt ?env] by auto
  then have "saveLedgerEntry rt ?env (disk w) = (Inl e, disk w)"
    by (rule saveLedgerEntry_invalid)
  with Inr show ?thesis by (simp add: translateRequest_def Let_def)
qed

theorem translateRequest_missing_translator_witness:
  "(in_method human_request = human \<or> in_method human_request = hybrid)
   \<and> (in_translator human_request = None \<or> in_translator human_request = Some [])
   \<and> (\<exists>e. fst (translateRequest sample_runtime fixed_provider human_request empty_world) = Inl e)
   \<and> disk (snd (translateRequest sample_runtime fixed_provider human_request empty_world)) = empty_fs"
  using translateRequest_missing_translator [of human_request sample_runtime fixed_provider empty_world]
  by (simp add: human_request_def sample_request_def empty_world_def)

text \<open>
  The claim as it is written fails on the request of the test for a human method without
  a translator: before the call the log of provider calls is empty, after it the log holds
  the call, and the error is the one of the ledger's validation.
\<close>

theorem provider_called_counterexample:
  "in_method human_request = human \<and> in_translator human_request = None
   \<and> provider_calls empty_world = []
   \<and> provider_calls (snd (translateRequest sample_runtime fixed_provider human_request empty_world))
       = [\<lparr>p_source_language = ''en'', p_target_language = ''pt'', p_text = ''Hello world''\<rparr>]
   \<and> fst (translateRequest sample_runtime fixed_provider human_request empty_world)
       = Inl translator_required"
proof -
  have v: "validateEnvelope sample_runtime
             \<lparr>contract = buildContract sample_runtime human_request ''Ola mundo'' (19 / 20)\<rparr>
           = Inl translator_required"
    by (simp add: validateEnvelope_def buildContract_def sample_runtime_def human_request_def
        sample_request_def falsy_def)
  have r: "translateRequest sample_runtime fixed_provider human_request empty_world
             = (Inl translator_required,
                empty_world\<lparr>provider_calls :=
                  provider_calls empty_world @ [translate_params_of human_request]\<rparr>)"
    by (simp add: translateRequest_def Let_def fixed_provider_def saveLedgerEntry_invalid [OF v])
  show ?thesis
    unfolding r
    by (simp add: translate_params_of_def human_request_def sample_request_def empty_world_def)
qed

text \<open>
  Claim C6. When the provider rejects, \<open>translateRequest\<close> fails with the very error of the
  provider, returns no envelope, and the file system, and so the ledger file, is the same
  before and after the call.
\<close>

theorem translateRequest_provider_failure:
  assumes "provider (translate_params_of input) = Inl e"
  shows "fst (translateRequest rt provider input w) = Inl e
         \<and> disk (snd (translateRequest rt provider input w)) = disk w
         \<and> files (disk (snd (translateRequest rt provider input w))) LEDGER_PATH
             = files (disk w) LEDGER_PATH"
  using assms by (simp add: translateRequest_def Let_def)

theorem translateRequest_provider_failure_witness:
  "failing_provider (translate_params_of sample_request) = Inl (Error ''Mock translation failed (simulated)'')
   \<and> fst (translateRequest sample_runtime failing_provider sample_request empty_world)
       = Inl (Error ''Mock translation failed (simulated)'')
   \<and> disk (snd (translateRequest sample_runtime failing_provider sample_request empty_world)) = empty_fs"
  using translateRequest_provider_failure [of failing_provider sample_request
      "Error ''Mock translation failed (simulated)''" sample_runtime empty_world]
  by (simp add: failing_provider_def empty_world_def)


section \<open>The contract builders\<close>

lemma buildContract_permissive:
  "confidence (buildContract rt input text conf) = conf
   \<and> translator (buildContract rt input text conf) = in_translator input
   \<and> contract_method (buildContract rt input text conf) = in_method input
   \<and> translated_text (buildContract rt input text conf) = text
   \<and> tenant_id (provenance (buildContract rt input text conf)) = in_tenant_id input
   \<and> signature (provenance (buildContract rt input text conf)) = []"
  by (simp add: buildContract_def buildProvenance_def ENABLE_SIGNING_def)

text \<open>
  Claim C3. The builder of the pipeline (translate.ts) has no error path: it returns a
  contract for every request and provider output (\<open>buildContract_permissive\<close>). The builder
  of contract.ts does not: it validates before it returns. On the input of its own test,
  a confidence of 1.5 with the method machine, it fails with the range error instead of
  returning the contract.
\<close>

theorem contract_buildContract_rejects:
  "contract_buildContract sample_runtime out_of_range_params = Inl confidence_range"
  by (simp add: contract_buildContract_def validateContract_def out_of_range_params_def
      sample_runtime_def falsy_def Let_def)


section \<open>The contract identifier\<close>

lemma digit_char_in: "d < 10 \<Longrightarrow> digit_char d \<in> set ''0123456789''"
  unfolding digit_char_def by (rule nth_mem) simp

lemma hex_digit_in: "d < 16 \<Longrightarrow> hex_digit d \<in> hex_chars"
  unfolding hex_digit_def hex_chars_def by (rule nth_mem) simp

lemma show_nat_digits: "set (show_nat n) \<subseteq> set ''0123456789''"
proof (induction n rule: show_nat.induct)
  case (1 n)
  show ?case
  proof (cases "n < 10")
    case True
    then show ?thesis using digit_char_in [of n] by (simp add: show_nat.simps [of n])
  next
    case False
    have "digit_char (n mod 10) \<in> set ''0123456789''" by (rule digit_char_in) simp
    with False 1 show ?thesis by (simp add: show_nat.simps [of n])
  qed
qed

lemma show_nat_nonempty: "show_nat n \<noteq> []"
  by (simp add: show_nat.simps [of n])

lemma byte_hex_chars: "set (byte_hex b) \<subseteq> hex_chars"
proof -
  have "unat b < 2 ^ 8" using unsigned_less [where 'b = 8 and w = b] by simp
  then have "unat b div 16 < 16" by simp
  moreover have "unat b mod 16 < 16" by simp
  ultimately show ?thesis by (simp add: byte_hex_def hex_digit_in)
qed

lemma generateHash_chars: "set (generateHash rt input) \<subseteq> hex_chars"
  using byte_hex_chars by (auto simp: generateHash_def)

lemma length_generateHash: "length (generateHash rt input) = 2 * length (sha256 rt input)"
proof -
  have "\<And>bs. length (concat (map byte_hex bs)) = 2 * length bs"
  proof -
    fix bs :: "8 word list" show "length (concat (map byte_hex bs)) = 2 * length bs"
      by (induction bs) (simp_all add: byte_hex_def)
  qed
  then show ?thesis by (simp add: generateHash_def)
qed

lemma hex_chars_printable:
  "ch \<in> hex_chars \<Longrightarrow> 32 \<le> (of_char ch :: nat) \<and> (of_char ch :: nat) < 127"
  by (auto simp: hex_chars_def)

text \<open>
  Claim C4, as the code has it. The identifier of a contract built by the pipeline is
  \<open>trans_\<close> followed by the first six characters of the hexadecimal digest of a text; that
  text is the source language, the target language and the source text of the request,
  joined by underscores, followed by an underscore and the clock reading in decimal. With
  a digest of 32 bytes the identifier has 12 characters, the last six are lower-case
  hexadecimal digits, and all are printable ASCII. Workflow and flow are not part of the
  hashed text.
\<close>

theorem pipeline_contract_id:
  assumes "length (sha256 rt (combined rt (id_content input))) = 32"
  shows "contract_id (buildContract rt input text conf)
           = ''trans_'' @ take 6 (generateHash rt (id_content input @ ''_'' @ show_nat (date_now rt)))
         \<and> id_content input
             = in_source_language input @ ''_'' @ in_target_language input @ ''_'' @ in_source_text input
         \<and> length (contract_id (buildContract rt input text conf)) = 12
         \<and> set (drop 6 (contract_id (buildContract rt input text conf))) \<subseteq> hex_chars
         \<and> (\<forall>ch \<in> set (contract_id (buildContract rt input text conf)).
               32 \<le> (of_char ch :: nat) \<and> (of_char ch :: nat) < 127)"
proof -
  let ?h = "generateHash rt (combined rt (id_content input))"
  have id: "contract_id (buildContract rt input text conf) = ''trans_'' @ take 6 ?h"
    by (simp add: buildContract_def generateContractId_def)
  have len: "length ?h = 64"
    using assms by (simp add: length_generateHash)
  have hex: "set (take 6 ?h) \<subseteq> hex_chars"
    using generateHash_chars [of rt "combined rt (id_content input)"] set_take_subset [of 6 ?h]
    by blast
  have pr: "\<forall>ch \<in> set (''trans_'' @ take 6 ?h). 32 \<le> (of_char ch :: nat) \<and> (of_char ch :: nat) < 127"
  proof
    fix ch assume "ch \<in> set (''trans_'' @ take 6 ?h)"
    then consider "ch \<in> set ''trans_''" | "ch \<in> set (take 6 ?h)" by auto
    then show "32 \<le> (of_char ch :: nat) \<and> (of_char ch :: nat) < 127"
    proof cases
      case 1 then show ?thesis by auto
    next
      case 2 with hex show ?thesis using hex_chars_printable by blast
    qed
  qed
  show ?thesis
    unfolding id using len hex pr by (simp add: combined_def id_content_def)
qed

theorem pipeline_contract_id_witness:
  "length (sha256 sample_runtime (combined sample_runtime (id_content sample_request))) = 32
   \<and> length (contract_id (buildContract sample_runtime sample_request ''Ola mundo'' (19 / 20))) = 12
   \<and> take 6 (contract_id (buildContract sample_runtime sample_request ''Ola mundo'' (19 / 20))) = ''trans_''"
proof -
  have h: "length (sha256 sample_runtime (combined sample_runtime (id_content sample_request))) = 32"
    by (simp add: sample_runtime_def sample_digest_def)
  note t = pipeline_contract_id [OF h, of "''Ola mundo''" "19 / 20"]
  have a: "length (contract_id (buildContract sample_runtime sample_request ''Ola mundo'' (19 / 20))) = 12"
    using t by blast
  have b: "take 6 (contract_id (buildContract sample_runtime sample_request ''Ola mundo'' (19 / 20))) = ''trans_''"
    using conjunct1 [OF t] by simp
  from h a b show ?thesis by blast
qed

text \<open>
  The claim as it is written fails on the sample request: the text the pipeline hashes is
  not the composition of source text, target language, workflow and flow.
\<close>

theorem id_composition_counterexample:
  "combined sample_runtime (id_content sample_request)
     \<noteq> combined sample_runtime (spec_id_content sample_request)"
  by (simp add: combined_def id_content_def spec_id_content_def sample_request_def)

lemma pipeline_id_ignores_workflow_and_flow:
  "contract_id (buildContract rt (input\<lparr>in_workflow := w1, in_flow := f1\<rparr>) text conf)
     = contract_id (buildContract rt input text conf)"
  by (simp add: buildContract_def id_content_def)


section \<open>The serialised line\<close>

lemma escape_char_no_newline: "CHR 0x0A \<notin> set (escape_char c)"
proof -
  have h: "\<And>d. d < 16 \<Longrightarrow> hex_digit d \<noteq> CHR 0x0A"
  proof -
    fix d :: nat assume "d < 16"
    then have "hex_digit d \<in> hex_chars" by (rule hex_digit_in)
    then show "hex_digit d \<noteq> CHR 0x0A" by (auto simp: hex_chars_def)
  qed
  have a: "hex_digit (of_char c div 16) \<noteq> CHR 0x0A"
  proof (rule h)
    show "(of_char c :: nat) div 16 < 16"
      by (rule less_mult_imp_div_less) simp
  qed
  have b: "hex_digit (of_char c mod 16) \<noteq> CHR 0x0A"
    by (rule h) simp
  show ?thesis using a b by (simp add: escape_char_def)
qed

lemma quote_json_string_no_newline: "CHR 0x0A \<notin> set (quote_json_string s)"
  using escape_char_no_newline by (auto simp: quote_json_string_def)

lemma number_chars_members:
  "CHR ''0'' \<in> number_chars" "CHR ''.'' \<in> number_chars" "CHR ''e'' \<in> number_chars"
  "CHR ''+'' \<in> number_chars" "CHR ''-'' \<in> number_chars" "CHR 0x0A \<notin> number_chars"
  by (simp_all add: number_chars_def)

lemma show_nat_number_chars: "set (show_nat n) \<subseteq> number_chars"
proof -
  have "set ''0123456789'' \<subseteq> number_chars" by (simp add: number_chars_def)
  with show_nat_digits [of n] show ?thesis by (rule subset_trans)
qed

lemma show_exponent_chars: "set (show_exponent ex) \<subseteq> number_chars"
  by (simp add: show_exponent_def number_chars_members show_nat_number_chars)

lemma format_digits_chars:
  assumes "set ds \<subseteq> number_chars"
  shows "set (format_digits ds n) \<subseteq> number_chars"
proof -
  have t: "\<And>k. set (take k ds) \<subseteq> number_chars"
    using assms set_take_subset by fastforce
  have d: "\<And>k. set (drop k ds) \<subseteq> number_chars"
    using assms set_drop_subset by fastforce
  have r: "\<And>k. set (replicate k CHR ''0'') \<subseteq> number_chars"
    by (simp add: number_chars_members set_replicate_conv_if)
  show ?thesis
    by (simp add: format_digits_def Let_def assms t d r number_chars_members show_exponent_chars)
qed

lemma show_positive_chars: "set (show_positive x) \<subseteq> number_chars"
proof -
  obtain s z where sz: "strip_zeros (nat \<lfloor>x * 10 ^ find_scale 400 x 0\<rfloor>) = (s, z)"
    by (cases "strip_zeros (nat \<lfloor>x * 10 ^ find_scale 400 x 0\<rfloor>)")
  have "show_positive x
          = format_digits (show_nat s)
              (int (length (show_nat s)) + int z - int (find_scale 400 x 0))"
    by (simp add: show_positive_def Let_def sz)
  then show ?thesis
    using format_digits_chars [OF show_nat_number_chars] by simp
qed

lemma show_number_chars: "set (show_number x) \<subseteq> number_chars"
  by (simp add: show_number_def number_chars_members show_positive_chars)

lemma show_number_no_newline: "CHR 0x0A \<notin> set (show_number x)"
  using show_number_chars [of x] number_chars_members(6) by blast

lemma set_join: "set (join sep xs) \<subseteq> set sep \<union> \<Union> (set ` set xs)"
  by (cases xs) (auto simp: join_def)

lemma JSON_stringify_no_newline: "CHR 0x0A \<notin> set (JSON_stringify j)"
proof (induction j)
  case JNull
  show ?case by simp
next
  case (JBool b)
  show ?case by simp
next
  case (JNumber x)
  show ?case by (simp add: show_number_no_newline)
next
  case (JString s)
  show ?case by (simp add: quote_json_string_no_newline)
next
  case (JArray vs)
  have "CHR 0x0A \<notin> set (join '','' (map JSON_stringify vs))"
    using set_join [of "'',''" "map JSON_stringify vs"] JArray by auto
  then show ?case by simp
next
  case (JObject ms)
  have m: "\<And>k v. (k, v) \<in> set ms \<Longrightarrow>
             CHR 0x0A \<notin> set (quote_json_string k @ '':'' @ JSON_stringify v)"
  proof -
    fix k v assume "(k, v) \<in> set ms"
    then have "CHR 0x0A \<notin> set (JSON_stringify v)"
      using JObject by (auto simp: snds.simps)
    then show "CHR 0x0A \<notin> set (quote_json_string k @ '':'' @ JSON_stringify v)"
      using quote_json_string_no_newline [of k] by simp
  qed
  have "CHR 0x0A \<notin> set (join '','' (map (\<lambda>(k, v). quote_json_string k @ '':'' @ JSON_stringify v) ms))"
    using set_join [of "'',''" "map (\<lambda>(k, v). quote_json_string k @ '':'' @ JSON_stringify v) ms"] m
    by fastforce
  then show ?case by simp
qed


section \<open>Reading the ledger\<close>

lemma JSON_parse_cases:
  "JSON_parse line = Inl syntax_error \<or> (\<exists>v. JSON_parse line = Inr v)"
  by (auto simp: JSON_parse_def syntax_error_def split: option.splits)

lemma parse_lines_fails:
  "\<exists>line \<in> set ls. isl (JSON_parse line) \<Longrightarrow> parse_lines ls = Inl syntax_error"
proof (induction ls)
  case Nil
  then show ?case by simp
next
  case (Cons l ls)
  show ?case
  proof (cases "JSON_parse l")
    case (Inl e)
    then have "e = syntax_error" using JSON_parse_cases [of l] by auto
    with Inl show ?thesis by simp
  next
    case (Inr v)
    then have "\<exists>line \<in> set ls. isl (JSON_parse line)" using Cons.prems by auto
    then have "parse_lines ls = Inl syntax_error" by (rule Cons.IH)
    with Inr show ?thesis by simp
  qed
qed

lemma parse_lines_succeeds:
  "\<forall>line \<in> set ls. \<not> isl (JSON_parse line) \<Longrightarrow> parse_lines ls = Inr (map parsed ls)"
proof (induction ls)
  case Nil
  then show ?case by simp
next
  case (Cons l ls)
  then obtain v where v: "JSON_parse l = Inr v" by (cases "JSON_parse l") auto
  have "parse_lines ls = Inr (map parsed ls)" using Cons by simp
  with v show ?case by (simp add: parsed_def)
qed

lemma readLedger_existing:
  "files st p = Some content \<Longrightarrow>
     readLedger st p = (case parse_lines (ledger_lines content) of
                          Inl e \<Rightarrow> if is_NotFound e then Inr [] else Inl e
                        | Inr vs \<Rightarrow> Inr vs)"
  by (simp add: readLedger_def Deno_readTextFile_def split: sum.splits)

text \<open>
  Claim C9. \<open>readLedger\<close> on a path where there is no file returns the empty list, not an
  error. For an existing file, the lines are the non-empty pieces of the trimmed text
  between line feeds; if one of them fails to parse as JSON, the whole read fails with that
  syntax error and no list is returned.
\<close>

theorem readLedger_missing_or_corrupt:
  "(files st p = None \<and> p \<notin> dirs st \<longrightarrow> readLedger st p = Inr [])
   \<and> (files st p = Some content \<and> (\<exists>line \<in> set (ledger_lines content). isl (JSON_parse line))
        \<longrightarrow> readLedger st p = Inl syntax_error)"
proof (intro conjI impI)
  assume "files st p = None \<and> p \<notin> dirs st"
  then show "readLedger st p = Inr []"
    by (simp add: readLedger_def Deno_readTextFile_def)
next
  assume a: "files st p = Some content \<and> (\<exists>line \<in> set (ledger_lines content). isl (JSON_parse line))"
  then have "parse_lines (ledger_lines content) = Inl syntax_error"
    using parse_lines_fails by blast
  with a show "readLedger st p = Inl syntax_error"
    by (simp add: readLedger_existing syntax_error_def)
qed

theorem readLedger_missing_or_corrupt_witness:
  "files empty_fs LEDGER_PATH = None \<and> LEDGER_PATH \<notin> dirs empty_fs
   \<and> readLedger empty_fs LEDGER_PATH = Inr []
   \<and> files broken_ledger LEDGER_PATH = Some broken_text
   \<and> (\<exists>line \<in> set (ledger_lines broken_text). isl (JSON_parse line))
   \<and> readLedger broken_ledger LEDGER_PATH = Inl syntax_error"
proof -
  have a: "files empty_fs LEDGER_PATH = None \<and> LEDGER_PATH \<notin> dirs empty_fs"
    by (simp add: empty_fs_def)
  have b: "files broken_ledger LEDGER_PATH = Some broken_text"
    by (simp add: broken_ledger_def)
  have c: "\<exists>line \<in> set (ledger_lines broken_text). isl (JSON_parse line)"
    by code_simp
  have r1: "readLedger empty_fs LEDGER_PATH = Inr []"
    using readLedger_missing_or_corrupt [of empty_fs LEDGER_PATH] a by blast
  have r2: "readLedger broken_ledger LEDGER_PATH = Inl syntax_error"
    using readLedger_missing_or_corrupt [of broken_ledger LEDGER_PATH broken_text] b c by blast
  from a b c r1 r2 show ?thesis by blast
qed

text \<open>
  Claim C10. \<open>readLedger\<close> validates nothing: when every line of the file parses as JSON,
  every line is returned as it parsed, whatever its shape. Neither the schema nor the
  business rules take part, so a line that \<open>saveLedgerEntry\<close> would reject is read back
  like any other.
\<close>

theorem readLedger_no_validation:
  assumes "files st p = Some content"
    and "\<forall>line \<in> set (ledger_lines content). \<not> isl (JSON_parse line)"
  shows "readLedger st p = Inr (map parsed (ledger_lines content))"
  using assms by (simp add: readLedger_existing parse_lines_succeeds)

theorem readLedger_no_validation_witness:
  "files unvalidated_ledger LEDGER_PATH = Some unvalidated_text
   \<and> list_all (\<lambda>line. \<not> isl (JSON_parse line)) (ledger_lines unvalidated_text)
   \<and> readLedger unvalidated_ledger LEDGER_PATH
       = Inr [JObject [], JNumber 42, envelope_json out_of_range_envelope]
   \<and> \<not> valid_envelope sample_runtime out_of_range_envelope"
proof -
  have a: "files unvalidated_ledger LEDGER_PATH = Some unvalidated_text"
    by (simp add: unvalidated_ledger_def)
  have b: "\<forall>line \<in> set (ledger_lines unvalidated_text). \<not> isl (JSON_parse line)"
    by code_simp
  have c: "map parsed (ledger_lines unvalidated_text)
             = [JObject [], JNumber 42, envelope_json out_of_range_envelope]"
    by code_simp
  have d: "\<not> valid_envelope sample_runtime out_of_range_envelope"
    by (simp add: valid_envelope_def business_rules_hold_def out_of_range_envelope_def)
  have b': "list_all (\<lambda>line. \<not> isl (JSON_parse line)) (ledger_lines unvalidated_text)"
    using b by (simp add: list_all_iff)
  have "readLedger unvalidated_ledger LEDGER_PATH
          = Inr [JObject [], JNumber 42, envelope_json out_of_range_envelope]"
    using readLedger_no_validation [OF a b] c by simp
  with a b' d show ?thesis by blast
qed


section \<open>Parsing what was serialised\<close>

lemma hex_val_hex_digit: "d < 16 \<Longrightarrow> hex_val (hex_digit d) = Some d"
proof -
  have "\<forall>i \<in> set [0..<16]. hex_val (hex_digit i) = Some i" by code_simp
  then show "d < 16 \<Longrightarrow> hex_val (hex_digit d) = Some d" by simp
qed

lemma hex4_escape:
  "hex4 CHR ''0'' CHR ''0'' (hex_digit (of_char c div 16)) (hex_digit (of_char c mod 16)) = Some c"
proof -
  have a: "hex_val (hex_digit (of_char c div 16)) = Some (of_char c div 16)"
    by (rule hex_val_hex_digit) (rule less_mult_imp_div_less, simp)
  have b: "hex_val (hex_digit (of_char c mod 16)) = Some (of_char c mod 16)"
    by (rule hex_val_hex_digit) simp
  have z: "hex_val CHR ''0'' = Some 0" by (simp add: hex_val_def)
  have "char_of ((of_char c :: nat) div 16 * 16 + of_char c mod 16) = c"
    by simp
  then show ?thesis by (simp add: hex4_def a b z)
qed

lemma string_body_escape_char:
  "string_body (escape_char c @ rest) = cons_char c (string_body rest)"
proof -
  consider "c = CHR 0x22" | "c = CHR 0x5C" | "c = CHR 0x08" | "c = CHR 0x09" | "c = CHR 0x0A"
    | "c = CHR 0x0C" | "c = CHR 0x0D"
    | "c \<noteq> CHR 0x22" "c \<noteq> CHR 0x5C" "c \<noteq> CHR 0x08" "c \<noteq> CHR 0x09" "c \<noteq> CHR 0x0A"
      "c \<noteq> CHR 0x0C" "c \<noteq> CHR 0x0D" "of_char c < (32::nat)"
    | "c \<noteq> CHR 0x22" "c \<noteq> CHR 0x5C" "c \<noteq> CHR 0x08" "c \<noteq> CHR 0x09" "c \<noteq> CHR 0x0A"
      "c \<noteq> CHR 0x0C" "c \<noteq> CHR 0x0D" "\<not> of_char c < (32::nat)"
    by blast
  then show ?thesis
  proof cases
    case 1 then show ?thesis by (simp add: escape_char_def unescape_def)
  next
    case 2 then show ?thesis by (simp add: escape_char_def unescape_def)
  next
    case 3 then show ?thesis by (simp add: escape_char_def unescape_def)
  next
    case 4 then show ?thesis by (simp add: escape_char_def unescape_def)
  next
    case 5 then show ?thesis by (simp add: escape_char_def unescape_def)
  next
    case 6 then show ?thesis by (simp add: escape_char_def unescape_def)
  next
    case 7 then show ?thesis by (simp add: escape_char_def unescape_def)
  next
    case 8 then show ?thesis by (simp add: escape_char_def hex4_escape)
  next
    case 9 then show ?thesis by (simp add: escape_char_def)
  qed
qed

lemma string_body_escaped:
  "string_body (concat (map escape_char s) @ CHR 0x22 # rest) = Some (s, rest)"
  by (induction s) (simp_all add: string_body_escape_char cons_char_def)

lemma skip_ws_quote [simp]: "skip_ws (quote_json_string s @ rest) = quote_json_string s @ rest"
  by (simp add: skip_ws_def quote_json_string_def is_json_ws_def)

lemma parse_value_string:
  "parse_value (Suc n) (quote_json_string s @ rest) = Some (JString s, rest)"
  by (simp add: skip_ws_def is_json_ws_def quote_json_string_def string_body_escaped)

lemma ends_number_facts:
  assumes "ends_number c"
  shows "\<not> is_digit c" "c \<noteq> CHR ''.''" "c \<noteq> CHR ''e''" "c \<noteq> CHR ''E''" "c \<noteq> CHR ''+''"
    "c \<noteq> CHR ''-''" "\<not> is_json_ws c"
  using assms by (auto simp: ends_number_def is_digit_def is_json_ws_def)

lemma takeWhile_digit_append:
  "\<not> is_digit c \<Longrightarrow> takeWhile is_digit (u @ c # rest) = takeWhile is_digit u"
  by (induction u) simp_all

lemma dropWhile_digit_append:
  "\<not> is_digit c \<Longrightarrow> dropWhile is_digit (u @ c # rest) = dropWhile is_digit u @ c # rest"
  by (induction u) simp_all

lemma parse_exponent_Nil: "parse_exponent [] = Some (0, [])"
  by (simp add: parse_exponent_def)

lemma parse_exponent_Cons:
  "parse_exponent (a # v) =
     (if a = CHR ''e'' \<or> a = CHR ''E'' then
        (let (sg, r1) =
               (case v of
                  [] \<Rightarrow> (1, v)
                | s # t \<Rightarrow>
                    if s = CHR ''+'' then (1, t)
                    else if s = CHR ''-'' then (- 1, t)
                    else (1, v));
             ds = takeWhile is_digit r1
         in if ds = [] then None
            else Some (sg * int (read_nat ds), dropWhile is_digit r1))
      else Some (0, a # v))"
  by (simp add: parse_exponent_def)

lemma parse_exponent_append:
  assumes "parse_exponent u = Some (ex, r)" and "ends_number c"
  shows "parse_exponent (u @ c # rest) = Some (ex, r @ c # rest)"
proof (cases u)
  case Nil
  then have "ex = 0" "r = []" using assms(1) by (simp_all add: parse_exponent_Nil)
  then show ?thesis
    using Nil ends_number_facts [OF assms(2)] by (simp add: parse_exponent_Cons)
next
  case (Cons a v)
  note nd = ends_number_facts(1) [OF assms(2)]
  show ?thesis
  proof (cases "a = CHR ''e'' \<or> a = CHR ''E''")
    case False
    then have "ex = 0" "r = a # v" using assms(1) Cons by (simp_all add: parse_exponent_Cons)
    then show ?thesis using False Cons by (simp add: parse_exponent_Cons)
  next
    case True
    show ?thesis
    proof (cases v)
      case Nil
      then have "parse_exponent u = None" using Cons True by (simp add: parse_exponent_Cons)
      with assms(1) show ?thesis by simp
    next
      case (Cons s t)
      define r1 where "r1 = (if s = CHR ''+'' \<or> s = CHR ''-'' then t else v)"
      define sg :: int where "sg = (if s = CHR ''-'' then - 1 else 1)"
      have pu: "parse_exponent u
                  = (if takeWhile is_digit r1 = [] then None
                     else Some (sg * int (read_nat (takeWhile is_digit r1)), dropWhile is_digit r1))"
        using \<open>u = a # v\<close> True Cons by (simp add: parse_exponent_Cons r1_def sg_def Let_def)
      have pe: "parse_exponent (u @ c # rest)
                  = (if takeWhile is_digit (r1 @ c # rest) = [] then None
                     else Some (sg * int (read_nat (takeWhile is_digit (r1 @ c # rest))),
                                dropWhile is_digit (r1 @ c # rest)))"
        using \<open>u = a # v\<close> True Cons by (simp add: parse_exponent_Cons r1_def sg_def Let_def)
      from pu assms(1) have ne: "takeWhile is_digit r1 \<noteq> []"
        by (auto split: if_splits)
      with pu assms(1) have "ex = sg * int (read_nat (takeWhile is_digit r1))"
        and "r = dropWhile is_digit r1" by simp_all
      then show ?thesis
        using ne by (simp add: pe takeWhile_digit_append [OF nd] dropWhile_digit_append [OF nd])
    qed
  qed
qed

lemma parse_fraction_Nil: "parse_fraction [] = Some ([], [])"
  by (simp add: parse_fraction_def)

lemma parse_fraction_Cons:
  "parse_fraction (a # v) =
     (if a = CHR ''.'' then
        (if takeWhile is_digit v = [] then None
         else Some (takeWhile is_digit v, dropWhile is_digit v))
      else Some ([], a # v))"
  by (simp add: parse_fraction_def)

lemma parse_fraction_append:
  assumes "parse_fraction u = Some (fp, r)" and "ends_number c"
  shows "parse_fraction (u @ c # rest) = Some (fp, r @ c # rest)"
proof (cases u)
  case Nil
  then have "fp = []" "r = []" using assms(1) by (simp_all add: parse_fraction_Nil)
  then show ?thesis
    using Nil ends_number_facts [OF assms(2)] by (simp add: parse_fraction_Cons)
next
  case (Cons a v)
  note nd = ends_number_facts(1) [OF assms(2)]
  show ?thesis
  proof (cases "a = CHR ''.''")
    case False
    then have "fp = []" "r = a # v" using assms(1) Cons by (simp_all add: parse_fraction_Cons)
    then show ?thesis using False Cons by (simp add: parse_fraction_Cons)
  next
    case True
    with assms(1) Cons have ne: "takeWhile is_digit v \<noteq> []"
      by (auto simp: parse_fraction_Cons split: if_splits)
    with assms(1) Cons True have "fp = takeWhile is_digit v" "r = dropWhile is_digit v"
      by (simp_all add: parse_fraction_Cons)
    then show ?thesis
      using ne True Cons
      by (simp add: parse_fraction_Cons takeWhile_digit_append [OF nd] dropWhile_digit_append [OF nd])
  qed
qed

lemma parse_unsigned_append:
  assumes "parse_unsigned neg w = Some (x, r)" and "ends_number c"
  shows "parse_unsigned neg (w @ c # rest) = Some (x, r @ c # rest)"
proof -
  note nd = ends_number_facts(1) [OF assms(2)]
  let ?ip = "takeWhile is_digit w"
  let ?r1 = "dropWhile is_digit w"
  have ok: "\<not> (?ip = [] \<or> (1 < length ?ip \<and> hd ?ip = CHR ''0''))"
    using assms(1) by (auto simp: parse_unsigned_def Let_def split: if_splits)
  then have pu: "parse_unsigned neg w =
      (case parse_fraction ?r1 of
         None \<Rightarrow> None
       | Some (fp, r2) \<Rightarrow>
           (case parse_exponent r2 of
              None \<Rightarrow> None
            | Some (ex, r3) \<Rightarrow>
                Some ((if neg then - 1 else 1)
                        * (of_nat (read_nat ?ip) + of_nat (read_nat fp) / 10 ^ length fp)
                        * pow10 ex, r3)))"
    by (auto simp: parse_unsigned_def Let_def)
  from pu assms(1) obtain fp r2 where f: "parse_fraction ?r1 = Some (fp, r2)"
    by (cases "parse_fraction ?r1") auto
  from pu assms(1) f obtain ex r3 where e: "parse_exponent r2 = Some (ex, r3)"
    by (cases "parse_exponent r2") auto
  from pu assms(1) f e
  have x: "x = (if neg then - 1 else 1)
                 * (of_nat (read_nat ?ip) + of_nat (read_nat fp) / 10 ^ length fp) * pow10 ex"
    and r: "r = r3" by simp_all
  have f': "parse_fraction (?r1 @ c # rest) = Some (fp, r2 @ c # rest)"
    using f assms(2) by (rule parse_fraction_append)
  have e': "parse_exponent (r2 @ c # rest) = Some (ex, r3 @ c # rest)"
    using e assms(2) by (rule parse_exponent_append)
  have "parse_unsigned neg (w @ c # rest) =
      (case parse_fraction (?r1 @ c # rest) of
         None \<Rightarrow> None
       | Some (fp, r2) \<Rightarrow>
           (case parse_exponent r2 of
              None \<Rightarrow> None
            | Some (ex, r3) \<Rightarrow>
                Some ((if neg then - 1 else 1)
                        * (of_nat (read_nat ?ip) + of_nat (read_nat fp) / 10 ^ length fp)
                        * pow10 ex, r3)))"
    using ok
    by (auto simp: parse_unsigned_def Let_def takeWhile_digit_append [OF nd]
        dropWhile_digit_append [OF nd])
  then show ?thesis by (simp add: f' e' x r)
qed

lemma parse_number_append:
  assumes "parse_number u = Some (x, r)" and "ends_number c"
  shows "parse_number (u @ c # rest) = Some (x, r @ c # rest)"
proof (cases u)
  case Nil
  with assms(1) show ?thesis by (simp add: parse_number_def)
next
  case (Cons a v)
  show ?thesis
  proof (cases "a = CHR ''-''")
    case True
    then have "parse_unsigned True v = Some (x, r)"
      using assms(1) Cons by (simp add: parse_number_def)
    then have "parse_unsigned True (v @ c # rest) = Some (x, r @ c # rest)"
      using assms(2) by (rule parse_unsigned_append)
    then show ?thesis using True Cons by (simp add: parse_number_def)
  next
    case False
    then have "parse_unsigned False (a # v) = Some (x, r)"
      using assms(1) Cons by (simp add: parse_number_def)
    then have "parse_unsigned False ((a # v) @ c # rest) = Some (x, r @ c # rest)"
      using assms(2) by (rule parse_unsigned_append)
    then show ?thesis using False Cons by (simp add: parse_number_def)
  qed
qed

lemma skip_ws_all_ws: "skip_ws r = [] \<Longrightarrow> \<not> is_json_ws d \<Longrightarrow> skip_ws (r @ d # rest) = d # rest"
proof -
  assume a: "skip_ws r = []" and d: "\<not> is_json_ws d"
  from a have "\<forall>x \<in> set r. is_json_ws x"
    by (simp add: skip_ws_def dropWhile_eq_Nil_conv)
  then have "dropWhile is_json_ws (r @ d # rest) = dropWhile is_json_ws (d # rest)"
    by (simp add: dropWhile_append2)
  with d show ?thesis by (simp add: skip_ws_def)
qed

lemma parse_literal_not_number: "parse_literal word v cs = Some (JNumber x, r) \<Longrightarrow> v = JNumber x"
  by (auto simp: parse_literal_def split: if_splits)

lemma parse_value_number:
  assumes "number_round_trips x" and "ends_number c"
  shows "\<exists>r. parse_value (Suc n) (show_number x @ c # rest) = Some (JNumber x, r @ c # rest)
             \<and> skip_ws r = []"
proof -
  let ?t = "show_number x"
  from assms(1) obtain r where p: "parse_value (Suc (length ?t)) ?t = Some (JNumber x, r)"
    and r: "skip_ws r = []"
    by (auto simp: number_round_trips_def JSON_parse_def split: option.splits if_splits)
  from p obtain a u where au: "skip_ws ?t = a # u"
    by (cases "skip_ws ?t") auto
  have na: "a \<noteq> CHR ''{''" "a \<noteq> CHR ''[''" "a \<noteq> CHR 0x22" "a \<noteq> CHR ''t''" "a \<noteq> CHR ''f''"
    "a \<noteq> CHR ''n''"
    using p au by (auto simp: parse_literal_def split: list.splits option.splits if_splits)
  from p au na have pn: "parse_number (a # u) = Some (x, r)"
    by (auto split: option.splits)
  have "dropWhile is_json_ws ?t \<noteq> []" using au by (simp add: skip_ws_def)
  then have "\<exists>y \<in> set ?t. \<not> is_json_ws y"
    by (simp add: dropWhile_eq_Nil_conv)
  then obtain y where "y \<in> set ?t" "\<not> is_json_ws y" by blast
  then have "dropWhile is_json_ws (?t @ c # rest) = dropWhile is_json_ws ?t @ c # rest"
    by (rule dropWhile_append1)
  then have sk: "skip_ws (?t @ c # rest) = a # (u @ c # rest)"
    using au by (simp add: skip_ws_def)
  have "parse_number ((a # u) @ c # rest) = Some (x, r @ c # rest)"
    using pn assms(2) by (rule parse_number_append)
  then have "parse_value (Suc n) (?t @ c # rest) = Some (JNumber x, r @ c # rest)"
    using sk na by simp
  with r show ?thesis by blast
qed

lemma parse_members_step:
  assumes "parse_value (Suc n) text = Some (v, r @ d # rest)"
    and "skip_ws r = []" and "\<not> is_json_ws d"
  shows "parse_members (Suc (Suc n)) (quote_json_string k @ CHR '':'' # text) =
           (if d = CHR '','' then
              (case parse_members (Suc n) rest of
                 None \<Rightarrow> None
               | Some (ms, r5) \<Rightarrow> Some ((k, v) # ms, r5))
            else if d = CHR ''}'' then Some ([(k, v)], rest)
            else None)"
proof -
  have q: "quote_json_string k @ CHR '':'' # text
             = CHR 0x22 # (concat (map escape_char k) @ CHR 0x22 # CHR '':'' # text)"
    by (simp add: quote_json_string_def)
  have s1: "skip_ws (CHR 0x22 # (concat (map escape_char k) @ CHR 0x22 # CHR '':'' # text))
              = CHR 0x22 # (concat (map escape_char k) @ CHR 0x22 # CHR '':'' # text)"
    by (simp add: skip_ws_def is_json_ws_def)
  have s2: "skip_ws (CHR '':'' # text) = CHR '':'' # text"
    by (simp add: skip_ws_def is_json_ws_def)
  have s3: "skip_ws (r @ d # rest) = d # rest"
    using assms(2,3) by (rule skip_ws_all_ws)
  show ?thesis
    unfolding q
    by (simp add: s1 s2 s3 string_body_escaped assms(1) del: parse_value.simps)
qed

lemma not_ws_delims: "\<not> is_json_ws CHR '',''" "\<not> is_json_ws CHR ''}''"
  by (simp_all add: is_json_ws_def)

lemma member_string_comma:
  "parse_members (Suc (Suc n)) (quote_json_string k @ CHR '':'' # quote_json_string s @ CHR '','' # rest)
     = (case parse_members (Suc n) rest of
          None \<Rightarrow> None
        | Some (ms, r5) \<Rightarrow> Some ((k, JString s) # ms, r5))"
  using parse_members_step [of n "quote_json_string s @ CHR '','' # rest" "JString s" "[]" "CHR '',''" rest k]
  by (simp add: parse_value_string skip_ws_def not_ws_delims del: parse_value.simps parse_members.simps)

lemma member_string_brace:
  "parse_members (Suc (Suc n)) (quote_json_string k @ CHR '':'' # quote_json_string s @ CHR ''}'' # rest)
     = Some ([(k, JString s)], rest)"
  using parse_members_step [of n "quote_json_string s @ CHR ''}'' # rest" "JString s" "[]" "CHR ''}''" rest k]
  by (simp add: parse_value_string skip_ws_def not_ws_delims del: parse_value.simps parse_members.simps)

lemma member_number_comma:
  assumes "number_round_trips x"
  shows "parse_members (Suc (Suc n)) (quote_json_string k @ CHR '':'' # show_number x @ CHR '','' # rest)
     = (case parse_members (Suc n) rest of
          None \<Rightarrow> None
        | Some (ms, r5) \<Rightarrow> Some ((k, JNumber x) # ms, r5))"
proof -
  have "ends_number CHR '',''" by (simp add: ends_number_def)
  with assms obtain r where
    p: "parse_value (Suc n) (show_number x @ CHR '','' # rest) = Some (JNumber x, r @ CHR '','' # rest)"
    and r: "skip_ws r = []"
    using parse_value_number [of x "CHR '',''" n rest] by blast
  show ?thesis
    using parse_members_step [OF p r not_ws_delims(1), of k] by simp
qed

lemma member_object_brace:
  assumes "parse_value (Suc n) (text @ CHR ''}'' # rest) = Some (v, CHR ''}'' # rest)"
  shows "parse_members (Suc (Suc n)) (quote_json_string k @ CHR '':'' # text @ CHR ''}'' # rest)
     = Some ([(k, v)], rest)"
  using parse_members_step [of n "text @ CHR ''}'' # rest" v "[]" "CHR ''}''" rest k] assms
  by (simp add: skip_ws_def not_ws_delims del: parse_value.simps parse_members.simps)

lemma parse_value_object:
  "parse_value (Suc n) (CHR ''{'' # quote_json_string k @ rest)
     = (case parse_members n (quote_json_string k @ rest) of
          None \<Rightarrow> None
        | Some (ms, r2) \<Rightarrow> Some (JObject ms, r2))"
  by (simp add: skip_ws_def is_json_ws_def quote_json_string_def)

lemma parse_provenance:
  "parse_value (fuel5 n) (JSON_stringify (provenance_json p) @ rest)
     = Some (provenance_json p, rest)"
  by (simp add: fuel5_def provenance_json_def join_def parse_value_object member_string_comma
      member_string_brace del: parse_value.simps parse_members.simps)

lemma parse_contract:
  assumes "number_round_trips (confidence c)"
  shows "parse_value (Suc (fuel20 n)) (JSON_stringify (contract_json c) @ CHR ''}'' # rest)
           = Some (contract_json c, CHR ''}'' # rest)"
proof -
  have pv: "\<And>m r. parse_value (Suc (Suc (Suc (Suc (Suc m)))))
                     (JSON_stringify (provenance_json (provenance c)) @ CHR ''}'' # r)
                   = Some (provenance_json (provenance c), CHR ''}'' # r)"
    using parse_provenance by (simp add: fuel5_def)
  show ?thesis
  proof (cases "translator c")
    case None
    then show ?thesis
      by (simp add: contract_json_def join_def fuel20_def fuel5_def parse_value_object member_string_comma
          member_number_comma [OF assms] member_object_brace [OF pv]
          del: parse_value.simps parse_members.simps)
  next
    case (Some t)
    then show ?thesis
      by (simp add: contract_json_def join_def fuel20_def fuel5_def parse_value_object member_string_comma
          member_number_comma [OF assms] member_object_brace [OF pv]
          del: parse_value.simps parse_members.simps)
  qed
qed

lemma fuel20_eq: "fuel20 n = n + 20"
  by (simp add: fuel20_def fuel5_def)


lemma length_envelope_text: "22 \<le> length (JSON_stringify (envelope_json envelope))"
proof -
  have "length (quote_json_string ''contract'') = 10"
    by (simp add: quote_json_string_def escape_char_def)
  moreover have "length (quote_json_string ''id'') = 4"
    by (simp add: quote_json_string_def escape_char_def)
  moreover have "length (quote_json_string ''workflow'') = 10"
    by (simp add: quote_json_string_def escape_char_def)
  ultimately show ?thesis
    by (simp add: envelope_json_def contract_json_def join_def)
qed

lemma parse_envelope:
  assumes "number_round_trips (confidence (contract envelope))"
  shows "parse_value (Suc (Suc (Suc (fuel20 n)))) (JSON_stringify (envelope_json envelope))
           = Some (envelope_json envelope, [])"
proof -
  have pc: "parse_value (Suc (fuel20 n)) (JSON_stringify (contract_json (contract envelope)) @ CHR ''}'' # [])
              = Some (contract_json (contract envelope), CHR ''}'' # [])"
    using assms by (rule parse_contract)
  show ?thesis
    using member_object_brace [OF pc, of "''contract''"]
    by (simp add: envelope_json_def join_def parse_value_object
        del: parse_value.simps parse_members.simps)
qed

lemma JSON_parse_envelope:
  assumes "number_round_trips (confidence (contract envelope))"
  shows "JSON_parse (JSON_stringify (envelope_json envelope)) = Inr (envelope_json envelope)"
proof -
  let ?t = "JSON_stringify (envelope_json envelope)"
  have "Suc (length ?t) = Suc (Suc (Suc (fuel20 (length ?t - 22))))"
    using length_envelope_text [of envelope] by (simp add: fuel20_eq)
  then have "parse_value (Suc (length ?t)) ?t = Some (envelope_json envelope, [])"
    using parse_envelope [OF assms, of "length ?t - 22"] by simp
  then show ?thesis by (simp add: JSON_parse_def skip_ws_def)
qed

lemma envelope_text_shape:
  "\<exists>body. JSON_stringify (envelope_json envelope) = CHR ''{'' # body @ [CHR ''}'']"
  by (simp add: envelope_json_def)


section \<open>Lines of the ledger file\<close>

lemma envelope_of_json_inverse: "envelope_of_json (envelope_json envelope) = Some envelope"
proof -
  have m: "method_of_name (method_name (contract_method (contract envelope)))
             = Some (contract_method (contract envelope))"
    by (cases "contract_method (contract envelope)") (simp_all add: method_name_def method_of_name_def)
  show ?thesis
    by (cases "translator (contract envelope)")
      (simp_all add: envelope_of_json_def envelope_json_def contract_json_def provenance_json_def
        object_field_def string_field_def number_field_def m)
qed

lemma split_no_sep: "sep \<notin> set l \<Longrightarrow> split sep l = [l]"
  by (induction l) auto

lemma split_append: "sep \<notin> set l \<Longrightarrow> split sep (l @ sep # rest) = l # split sep rest"
  by (induction l) auto

lemma split_lines_text:
  "\<forall>l \<in> set xs. CHR 0x0A \<notin> set l \<Longrightarrow> CHR 0x0A \<notin> set l \<Longrightarrow>
     split (CHR 0x0A) (lines_text xs @ l) = xs @ [l]"
proof (induction xs)
  case Nil
  then show ?case by (simp add: lines_text_def split_no_sep)
next
  case (Cons x xs)
  then have "split (CHR 0x0A) (lines_text xs @ l) = xs @ [l]" by simp
  moreover have "CHR 0x0A \<notin> set x" using Cons.prems by simp
  ultimately show ?case
    using split_append [of "CHR 0x0A" x "lines_text xs @ l"] by (simp add: lines_text_def)
qed

lemma not_space_braces: "\<not> is_js_space CHR ''{''" "\<not> is_js_space CHR ''}''" "is_js_space CHR 0x0A"
  by (simp_all add: is_js_space_def)

lemma trim_lines_text:
  assumes "\<forall>l \<in> set (xs @ [l]). framed l"
  shows "trim (lines_text (xs @ [l])) = lines_text xs @ l"
proof -
  obtain body where l: "l = CHR ''{'' # body @ [CHR ''}'']"
    using assms by (auto simp: framed_def)
  have "\<exists>u. lines_text (xs @ [l]) = CHR ''{'' # u"
  proof (cases xs)
    case Nil
    then show ?thesis by (simp add: lines_text_def l)
  next
    case (Cons x xs')
    then obtain b where "x = CHR ''{'' # b @ [CHR ''}'']"
      using assms by (auto simp: framed_def)
    then show ?thesis using Cons by (simp add: lines_text_def)
  qed
  then obtain u where u: "lines_text (xs @ [l]) = CHR ''{'' # u" by blast
  have front: "dropWhile is_js_space (lines_text (xs @ [l])) = lines_text (xs @ [l])"
    unfolding u by (simp add: not_space_braces)
  have rear: "rev (lines_text (xs @ [l])) = CHR 0x0A # CHR ''}'' # rev (lines_text xs @ CHR ''{'' # body)"
    by (simp add: lines_text_def l)
  have "trim (lines_text (xs @ [l])) = rev (CHR ''}'' # rev (lines_text xs @ CHR ''{'' # body))"
    unfolding trim_def front rear by (simp add: not_space_braces)
  then show ?thesis by (simp add: l)
qed

lemma ledger_lines_lines_text:
  assumes "\<forall>l \<in> set ls. framed l"
  shows "ledger_lines (lines_text ls) = ls"
proof (cases ls rule: rev_cases)
  case Nil
  then show ?thesis by (simp add: ledger_lines_def lines_text_def trim_def)
next
  case (snoc xs l)
  have fr: "\<forall>x \<in> set (xs @ [l]). framed x"
    using assms snoc by simp
  have t: "trim (lines_text (xs @ [l])) = lines_text xs @ l"
    using fr by (rule trim_lines_text)
  have n: "\<forall>x \<in> set xs. CHR 0x0A \<notin> set x" "CHR 0x0A \<notin> set l"
    using fr by (auto simp: framed_def)
  have s: "split (CHR 0x0A) (lines_text xs @ l) = xs @ [l]"
    using n by (rule split_lines_text)
  have "\<forall>x \<in> set (xs @ [l]). 0 < length x"
    using fr by (auto simp: framed_def)
  then have f: "filter (\<lambda>line. 0 < length line) (xs @ [l]) = xs @ [l]"
    by (simp only: filter_id_conv)
  have "ledger_lines (lines_text (xs @ [l])) = xs @ [l]"
    unfolding ledger_lines_def t s by (rule f)
  then show ?thesis unfolding snoc .
qed

lemma envelope_text_framed: "framed (JSON_stringify (envelope_json envelope))"
proof -
  have "\<exists>body. JSON_stringify (envelope_json envelope) = CHR ''{'' # body @ [CHR ''}'']"
    by (simp add: envelope_json_def)
  then show ?thesis
    using JSON_stringify_no_newline [of "envelope_json envelope"] by (simp add: framed_def)
qed


section \<open>Numbers written and read back\<close>

lemma pow10_powi: "pow10 ex = 10 powi ex"
  by (simp add: pow10_def power_int_def field_simps)

lemma pow10_add: "pow10 (a + b) = pow10 a * pow10 b"
  by (simp add: pow10_powi power_int_add)

lemma pow10_nat: "pow10 (int j) = 10 ^ j"
  by (simp add: pow10_def)

lemma pow10_neg_nat: "pow10 (- int j) = 1 / 10 ^ j"
  by (simp add: pow10_powi power_int_minus field_simps)

lemma is_digit_digit_char: "d < 10 \<Longrightarrow> is_digit (digit_char d) \<and> digit_val (digit_char d) = d"
proof -
  have "\<forall>i \<in> set [0..<10]. is_digit (digit_char i) \<and> digit_val (digit_char i) = i"
    by code_simp
  then show "d < 10 \<Longrightarrow> is_digit (digit_char d) \<and> digit_val (digit_char d) = d" by simp
qed

lemma digit_char_not_zero: "0 < d \<Longrightarrow> d < 10 \<Longrightarrow> digit_char d \<noteq> CHR ''0''"
proof -
  have "\<forall>i \<in> set [1..<10]. digit_char i \<noteq> CHR ''0''" by code_simp
  then show "0 < d \<Longrightarrow> d < 10 \<Longrightarrow> digit_char d \<noteq> CHR ''0''" by simp
qed

lemma show_nat_all_digits: "\<forall>c \<in> set (show_nat n). is_digit c"
proof (induction n rule: show_nat.induct)
  case (1 n)
  show ?case
  proof (cases "n < 10")
    case True
    then show ?thesis using is_digit_digit_char [of n] by (simp add: show_nat.simps [of n])
  next
    case False
    have "is_digit (digit_char (n mod 10))" using is_digit_digit_char [of "n mod 10"] by simp
    with False 1 show ?thesis by (simp add: show_nat.simps [of n])
  qed
qed

lemma read_nat_snoc: "read_nat (xs @ [c]) = 10 * read_nat xs + digit_val c"
  by (simp add: read_nat_def)

lemma read_nat_append: "read_nat (xs @ ys) = read_nat xs * 10 ^ length ys + read_nat ys"
proof (induction ys rule: rev_induct)
  case Nil
  show ?case by (simp add: read_nat_def)
next
  case (snoc c ys)
  have "read_nat (xs @ ys @ [c]) = 10 * read_nat (xs @ ys) + digit_val c"
    using read_nat_snoc [of "xs @ ys" c] by simp
  also have "\<dots> = 10 * (read_nat xs * 10 ^ length ys + read_nat ys) + digit_val c"
    using snoc by simp
  also have "\<dots> = read_nat xs * 10 ^ length (ys @ [c]) + read_nat (ys @ [c])"
    by (simp add: read_nat_snoc algebra_simps)
  finally show ?case by simp
qed

lemma read_nat_single: "read_nat [c] = digit_val c"
  by (simp add: read_nat_def)

lemma read_nat_show_nat: "read_nat (show_nat n) = n"
proof (induction n rule: show_nat.induct)
  case (1 n)
  show ?case
  proof (cases "n < 10")
    case True
    then show ?thesis
      using is_digit_digit_char [of n] by (simp add: show_nat.simps [of n] read_nat_single)
  next
    case False
    have "digit_val (digit_char (n mod 10)) = n mod 10"
      using is_digit_digit_char [of "n mod 10"] by simp
    with False 1 show ?thesis
      by (simp add: show_nat.simps [of n] read_nat_snoc)
  qed
qed

lemma read_nat_zeros: "read_nat (replicate j CHR ''0'') = 0"
  by (induction j) (simp_all add: read_nat_def digit_val_def replicate_append_same [symmetric]
      del: replicate_append_same)

lemma show_nat_no_leading_zero: "0 < n \<Longrightarrow> hd (show_nat n) \<noteq> CHR ''0''"
proof (induction n rule: show_nat.induct)
  case (1 n)
  show ?case
  proof (cases "n < 10")
    case True
    with 1(2) have "digit_char n \<noteq> CHR ''0''"
      by (simp add: digit_char_not_zero)
    with True show ?thesis by (simp add: show_nat.simps [of n])
  next
    case False
    then have "0 < n div 10" by simp
    with False 1 have "hd (show_nat (n div 10)) \<noteq> CHR ''0''" by simp
    moreover have "show_nat (n div 10) \<noteq> []" by (rule show_nat_nonempty)
    ultimately show ?thesis using False by (simp add: show_nat.simps [of n])
  qed
qed

lemma strip_zeros_correct:
  "0 < m \<Longrightarrow> strip_zeros m = (s, z) \<Longrightarrow> m = s * 10 ^ z \<and> 0 < s"
proof (induction m arbitrary: s z rule: strip_zeros.induct)
  case (1 m)
  show ?case
  proof (cases "m mod 10 = 0")
    case True
    obtain s' z' where sz: "strip_zeros (m div 10) = (s', z')"
      by (cases "strip_zeros (m div 10)")
    have pos: "0 < m div 10" using True 1(2) by presburger
    have "m div 10 = s' * 10 ^ z' \<and> 0 < s'"
      using 1(1) [of s' z'] True 1(2) pos sz by simp
    moreover have "s = s'" "z = Suc z'"
      using 1(3) True 1(2) sz by (simp_all add: strip_zeros.simps [of m])
    moreover have "m = (m div 10) * 10" using True by presburger
    ultimately show ?thesis by simp
  next
    case False
    then have "s = m" "z = 0" using 1(3) by (simp_all add: strip_zeros.simps [of m])
    then show ?thesis using 1(2) by simp
  qed
qed

lemma takeWhile_digits_all: "\<forall>c \<in> set ds. is_digit c \<Longrightarrow> takeWhile is_digit ds = ds"
  by (simp add: takeWhile_eq_all_conv)

lemma dropWhile_digits_all: "\<forall>c \<in> set ds. is_digit c \<Longrightarrow> dropWhile is_digit ds = []"
  by simp

lemma takeWhile_digits_then:
  "\<forall>c \<in> set ds. is_digit c \<Longrightarrow> \<not> is_digit c \<Longrightarrow> takeWhile is_digit (ds @ c # rest) = ds"
  by (simp add: takeWhile_append2)

lemma dropWhile_digits_then:
  "\<forall>c \<in> set ds. is_digit c \<Longrightarrow> \<not> is_digit c \<Longrightarrow> dropWhile is_digit (ds @ c # rest) = c # rest"
  by (simp add: dropWhile_append2)

lemma not_digit_marks:
  "\<not> is_digit CHR ''.''" "\<not> is_digit CHR ''e''" "\<not> is_digit CHR ''+''" "\<not> is_digit CHR ''-''"
  "is_digit CHR ''0''"
  by (simp_all add: is_digit_def)

lemma parse_exponent_text: "parse_exponent (exponent_text ex) = Some (ex, [])"
proof -
  define n where "n = nat \<bar>ex\<bar>"
  have d: "takeWhile is_digit (show_nat n) = show_nat n"
    by (rule takeWhile_digits_all) (rule show_nat_all_digits)
  have dd: "dropWhile is_digit (show_nat n) = []"
    by (rule dropWhile_digits_all) (rule show_nat_all_digits)
  have ne: "show_nat n \<noteq> []" by (rule show_nat_nonempty)
  have r: "read_nat (show_nat n) = n" by (rule read_nat_show_nat)
  show ?thesis
  proof (cases "ex < 0")
    case True
    then have "exponent_text ex = CHR ''e'' # CHR ''-'' # show_nat n"
      by (simp add: exponent_text_def show_exponent_def n_def)
    moreover have "- int n = ex" using True by (simp add: n_def)
    ultimately show ?thesis
      using ne by (simp add: parse_exponent_def Let_def d dd r)
  next
    case False
    then have "exponent_text ex = CHR ''e'' # CHR ''+'' # show_nat n"
      by (simp add: exponent_text_def show_exponent_def n_def)
    moreover have "int n = ex" using False by (simp add: n_def)
    ultimately show ?thesis
      using ne by (simp add: parse_exponent_def Let_def d dd r)
  qed
qed

lemma parse_exponent_empty: "parse_exponent [] = Some (0, [])"
  by (simp add: parse_exponent_def)

lemma parse_fraction_empty: "parse_fraction [] = Some ([], [])"
  by (simp add: parse_fraction_def)

lemma parse_fraction_exponent: "parse_fraction (exponent_text ex) = Some ([], exponent_text ex)"
  by (simp add: parse_fraction_def exponent_text_def)

lemma parse_fraction_digits:
  assumes "\<forall>c \<in> set fp. is_digit c" and "fp \<noteq> []"
  shows "parse_fraction (CHR ''.'' # fp) = Some (fp, [])"
    and "parse_fraction (CHR ''.'' # fp @ exponent_text ex) = Some (fp, exponent_text ex)"
proof -
  show "parse_fraction (CHR ''.'' # fp) = Some (fp, [])"
    using assms by (simp add: parse_fraction_def takeWhile_digits_all)
  have e: "exponent_text ex = CHR ''e'' # show_exponent ex"
    by (simp add: exponent_text_def)
  show "parse_fraction (CHR ''.'' # fp @ exponent_text ex) = Some (fp, exponent_text ex)"
    unfolding e using assms
    by (simp add: parse_fraction_def takeWhile_digits_then dropWhile_digits_then not_digit_marks)
qed

lemma parse_unsigned_shape:
  assumes ip: "\<forall>c \<in> set ip. is_digit c" "ip \<noteq> []" "\<not> (1 < length ip \<and> hd ip = CHR ''0'')"
    and f: "parse_fraction tail1 = Some (fp, tail2)"
    and e: "parse_exponent tail2 = Some (ex, [])"
    and m: "tail1 = [] \<or> \<not> is_digit (hd tail1)"
  shows "parse_unsigned neg (ip @ tail1)
           = Some (sign_of neg * (of_nat (read_nat ip) + of_nat (read_nat fp) / 10 ^ length fp)
                     * pow10 ex, [])"
proof -
  have t: "takeWhile is_digit (ip @ tail1) = ip" and d: "dropWhile is_digit (ip @ tail1) = tail1"
  proof -
    show "takeWhile is_digit (ip @ tail1) = ip"
    proof (cases tail1)
      case Nil then show ?thesis using ip(1) by (simp add: takeWhile_digits_all)
    next
      case (Cons c rest)
      then have "\<not> is_digit c" using m by simp
      then show ?thesis using ip(1) Cons by (simp add: takeWhile_digits_then)
    qed
    show "dropWhile is_digit (ip @ tail1) = tail1"
    proof (cases tail1)
      case Nil then show ?thesis using ip(1) by simp
    next
      case (Cons c rest)
      then have "\<not> is_digit c" using m by simp
      then show ?thesis using ip(1) Cons by (simp add: dropWhile_digits_then)
    qed
  qed
  show ?thesis
    using ip(2,3) by (auto simp: parse_unsigned_def Let_def t d f e sign_of_def)
qed

lemma exponent_text_head: "exponent_text ex \<noteq> [] \<and> \<not> is_digit (hd (exponent_text ex))"
  by (simp add: exponent_text_def not_digit_marks)

lemma read_nat_Nil: "read_nat [] = 0"
  by (simp add: read_nat_def)

lemma read_nat_zero_char: "read_nat ''0'' = 0"
  by (simp add: read_nat_def digit_val_def)

lemma pow10_zero: "pow10 0 = 1"
  by (simp add: pow10_def)

lemma split_value:
  assumes "j \<le> length ds"
  shows "(of_nat (read_nat (take j ds)) :: rat) + of_nat (read_nat (drop j ds)) / 10 ^ (length ds - j)
           = of_nat (read_nat ds) / 10 ^ (length ds - j)"
proof -
  have "read_nat ds = read_nat (take j ds @ drop j ds)" by simp
  also have "\<dots> = read_nat (take j ds) * 10 ^ (length ds - j) + read_nat (drop j ds)"
    using read_nat_append [of "take j ds" "drop j ds"] by simp
  finally have "(of_nat (read_nat ds) :: rat)
                  = of_nat (read_nat (take j ds)) * 10 ^ (length ds - j) + of_nat (read_nat (drop j ds))"
    by simp
  then show ?thesis by (simp add: field_simps)
qed

lemma parse_format_digits:
  assumes s: "0 < s"
  shows "parse_unsigned neg (format_digits (show_nat s) n)
           = Some (sign_of neg * of_nat s * pow10 (n - int (length (show_nat s))), [])"
proof -
  define ds where "ds = show_nat s"
  define k where "k = length ds"
  have dg: "\<forall>c \<in> set ds. is_digit c" unfolding ds_def by (rule show_nat_all_digits)
  have ne: "ds \<noteq> []" unfolding ds_def by (rule show_nat_nonempty)
  have hd0: "hd ds \<noteq> CHR ''0''" unfolding ds_def using s by (rule show_nat_no_leading_zero)
  have rd: "read_nat ds = s" unfolding ds_def by (rule read_nat_show_nat)
  have kpos: "0 < k" using ne by (simp add: k_def)
  have goal: "parse_unsigned neg (format_digits ds n)
                = Some (sign_of neg * of_nat s * pow10 (n - int k), [])"
  proof -
    consider (int) "int k \<le> n" "n \<le> 21"
      | (frac) "\<not> (int k \<le> n \<and> n \<le> 21)" "0 < n" "n \<le> 21"
      | (small) "\<not> (int k \<le> n \<and> n \<le> 21)" "\<not> (0 < n \<and> n \<le> 21)" "- 6 < n" "n \<le> 0"
      | (exp1) "\<not> (int k \<le> n \<and> n \<le> 21)" "\<not> (0 < n \<and> n \<le> 21)" "\<not> (- 6 < n \<and> n \<le> 0)" "k = 1"
      | (expk) "\<not> (int k \<le> n \<and> n \<le> 21)" "\<not> (0 < n \<and> n \<le> 21)" "\<not> (- 6 < n \<and> n \<le> 0)" "k \<noteq> 1"
      by blast
    then show ?thesis
    proof cases
      case int
      define j where "j = nat (n - int k)"
      have nk: "n - int k = int j" using int by (simp add: j_def)
      have f: "format_digits ds n = (ds @ replicate j CHR ''0'') @ []"
        using int by (simp add: format_digits_def Let_def k_def j_def)
      have ip: "\<forall>c \<in> set (ds @ replicate j CHR ''0''). is_digit c"
        using dg by (auto simp: not_digit_marks)
      have h: "\<not> (1 < length (ds @ replicate j CHR ''0'') \<and> hd (ds @ replicate j CHR ''0'') = CHR ''0'')"
        using ne hd0 by simp
      have v: "read_nat (ds @ replicate j CHR ''0'') = s * 10 ^ j"
        by (simp add: read_nat_append read_nat_zeros rd)
      have "parse_unsigned neg ((ds @ replicate j CHR ''0'') @ [])
              = Some (sign_of neg * (of_nat (read_nat (ds @ replicate j CHR ''0''))
                        + of_nat (read_nat []) / 10 ^ length ([] :: string)) * pow10 0, [])"
        using ip _ h parse_fraction_empty parse_exponent_empty
        by (rule parse_unsigned_shape) (simp_all add: ne)
      moreover have "pow10 (n - int k) = 10 ^ j"
        by (simp only: nk pow10_nat)
      ultimately show ?thesis
        unfolding f by (simp add: v pow10_zero read_nat_Nil)
    next
      case frac
      define j where "j = nat n"
      have jk: "j < k" "0 < j" using frac by (simp_all add: j_def)
      have nk: "n - int k = - int (k - j)" using frac jk by (simp add: j_def)
      have f: "format_digits ds n = take j ds @ (CHR ''.'' # drop j ds)"
        using frac by (simp add: format_digits_def Let_def k_def j_def)
      have ip: "\<forall>c \<in> set (take j ds). is_digit c"
        using dg by (meson in_set_takeD)
      have fp: "\<forall>c \<in> set (drop j ds). is_digit c"
        using dg by (meson in_set_dropD)
      have fpn: "drop j ds \<noteq> []" using jk by (simp add: k_def)
      have ipn: "take j ds \<noteq> []" using jk ne by simp
      have h: "\<not> (1 < length (take j ds) \<and> hd (take j ds) = CHR ''0'')"
        using hd0 jk by (simp add: hd_take)
      have "parse_unsigned neg (take j ds @ (CHR ''.'' # drop j ds))
              = Some (sign_of neg * (of_nat (read_nat (take j ds))
                        + of_nat (read_nat (drop j ds)) / 10 ^ length (drop j ds)) * pow10 0, [])"
        using ip ipn h parse_fraction_digits(1) [OF fp fpn] parse_exponent_empty
        by (rule parse_unsigned_shape) (simp add: not_digit_marks)
      moreover have "(of_nat (read_nat (take j ds)) :: rat)
                       + of_nat (read_nat (drop j ds)) / 10 ^ length (drop j ds)
                     = of_nat s / 10 ^ (k - j)"
        using split_value [of j ds] jk by (simp add: k_def rd)
      moreover have "pow10 (n - int k) = 1 / 10 ^ (k - j)"
        by (simp only: nk pow10_neg_nat)
      ultimately show ?thesis
        unfolding f by (simp add: pow10_zero)
    next
      case small
      define j where "j = nat (- n)"
      have nk: "n - int k = - int (j + k)" using small by (simp add: j_def)
      have f: "format_digits ds n = ''0'' @ (CHR ''.'' # (replicate j CHR ''0'' @ ds))"
        using small by (simp add: format_digits_def Let_def k_def j_def)
      have fp: "\<forall>c \<in> set (replicate j CHR ''0'' @ ds). is_digit c"
        using dg by (auto simp: not_digit_marks)
      have fpn: "replicate j CHR ''0'' @ ds \<noteq> []" using ne by simp
      have v: "read_nat (replicate j CHR ''0'' @ ds) = s"
        by (simp add: read_nat_append read_nat_zeros rd)
      have "parse_unsigned neg (''0'' @ (CHR ''.'' # (replicate j CHR ''0'' @ ds)))
              = Some (sign_of neg * (of_nat (read_nat ''0'')
                        + of_nat (read_nat (replicate j CHR ''0'' @ ds))
                            / 10 ^ length (replicate j CHR ''0'' @ ds)) * pow10 0, [])"
        using _ _ _ parse_fraction_digits(1) [OF fp fpn] parse_exponent_empty
        by (rule parse_unsigned_shape) (simp_all add: not_digit_marks)
      moreover have "pow10 (n - int k) = 1 / 10 ^ (j + k)"
        by (simp only: nk pow10_neg_nat)
      ultimately show ?thesis
        unfolding f by (simp add: v pow10_zero read_nat_zero_char k_def)
    next
      case exp1
      have f: "format_digits ds n = ds @ exponent_text (n - 1)"
        using exp1 by (auto simp: format_digits_def Let_def k_def exponent_text_def)
      have h: "\<not> (1 < length ds \<and> hd ds = CHR ''0'')" using hd0 by simp
      have "parse_unsigned neg (ds @ exponent_text (n - 1))
              = Some (sign_of neg * (of_nat (read_nat ds)
                        + of_nat (read_nat []) / 10 ^ length ([] :: string)) * pow10 (n - 1), [])"
        using dg ne h parse_fraction_exponent parse_exponent_text
        by (rule parse_unsigned_shape) (simp add: exponent_text_head)
      then show ?thesis
        unfolding f using exp1 by (simp add: rd read_nat_Nil)
    next
      case expk
      then have k2: "1 < k" using kpos by simp
      have f: "format_digits ds n = take 1 ds @ (CHR ''.'' # drop 1 ds @ exponent_text (n - 1))"
        using expk by (auto simp: format_digits_def Let_def k_def exponent_text_def)
      have ip: "\<forall>c \<in> set (take 1 ds). is_digit c"
        using dg by (meson in_set_takeD)
      have fp: "\<forall>c \<in> set (drop 1 ds). is_digit c"
        using dg by (meson in_set_dropD)
      have fpn: "drop 1 ds \<noteq> []" using k2 by (simp add: k_def)
      have ipn: "take 1 ds \<noteq> []" using ne by simp
      have h: "\<not> (1 < length (take 1 ds) \<and> hd (take 1 ds) = CHR ''0'')"
        by simp
      have "parse_unsigned neg (take 1 ds @ (CHR ''.'' # drop 1 ds @ exponent_text (n - 1)))
              = Some (sign_of neg * (of_nat (read_nat (take 1 ds))
                        + of_nat (read_nat (drop 1 ds)) / 10 ^ length (drop 1 ds)) * pow10 (n - 1), [])"
        using ip ipn h parse_fraction_digits(2) [OF fp fpn] parse_exponent_text
        by (rule parse_unsigned_shape) (simp add: not_digit_marks)
      moreover have "(of_nat (read_nat (take 1 ds)) :: rat)
                       + of_nat (read_nat (drop 1 ds)) / 10 ^ length (drop 1 ds)
                     = of_nat s / 10 ^ (k - 1)"
        using split_value [of 1 ds] k2 by (simp add: k_def rd)
      moreover have "of_nat s / 10 ^ (k - 1) * pow10 (n - 1) = of_nat s * pow10 (n - int k)"
      proof -
        have "pow10 (n - int k) = pow10 (- int (k - 1) + (n - 1))"
          using k2 by (simp add: algebra_simps of_nat_diff)
        also have "\<dots> = pow10 (- int (k - 1)) * pow10 (n - 1)" by (rule pow10_add)
        finally show ?thesis by (simp add: pow10_neg_nat)
      qed
      ultimately show ?thesis
        unfolding f by (simp add: mult.assoc)
    qed
  qed
  then show ?thesis by (simp add: ds_def k_def)
qed

lemma parse_unsigned_head:
  assumes "parse_unsigned neg t = Some r"
  shows "t \<noteq> [] \<and> is_digit (hd t)"
proof -
  have "takeWhile is_digit t \<noteq> []"
    using assms by (auto simp: parse_unsigned_def Let_def split: if_splits)
  then show ?thesis by (cases t) (auto split: if_splits)
qed

lemma JSON_parse_number_text:
  assumes "parse_number t = Some (v, [])" and "t \<noteq> []" and "is_digit (hd t) \<or> hd t = CHR ''-''"
  shows "JSON_parse t = Inr (JNumber v)"
proof -
  obtain a u where t: "t = a # u" using assms(2) by (cases t) auto
  have a: "is_digit a \<or> a = CHR ''-''" using assms(3) t by simp
  then have na: "\<not> is_json_ws a" "a \<noteq> CHR ''{''" "a \<noteq> CHR ''[''" "a \<noteq> CHR 0x22" "a \<noteq> CHR ''t''"
    "a \<noteq> CHR ''f''" "a \<noteq> CHR ''n''"
    by (auto simp: is_digit_def is_json_ws_def)
  have "parse_value (Suc (length t)) t = Some (JNumber v, [])"
    using na assms(1) by (simp add: t skip_ws_def)
  then show ?thesis by (simp add: JSON_parse_def skip_ws_def)
qed

lemma parse_show_positive:
  assumes "0 < x" and "x * 10 ^ find_scale 400 x 0 = of_int \<lfloor>x * 10 ^ find_scale 400 x 0\<rfloor>"
  shows "parse_unsigned neg (show_positive x) = Some (sign_of neg * x, [])"
proof -
  define e where "e = find_scale 400 x 0"
  define m where "m = nat \<lfloor>x * 10 ^ e\<rfloor>"
  have pos: "0 < x * 10 ^ e" using assms(1) by simp
  have int: "x * 10 ^ e = of_int \<lfloor>x * 10 ^ e\<rfloor>" using assms(2) by (simp add: e_def)
  have fl: "0 < \<lfloor>x * 10 ^ e\<rfloor>"
  proof (rule ccontr)
    assume "\<not> 0 < \<lfloor>x * 10 ^ e\<rfloor>"
    then have "\<lfloor>x * 10 ^ e\<rfloor> \<le> 0" by simp
    then have "(of_int \<lfloor>x * 10 ^ e\<rfloor> :: rat) \<le> 0" by simp
    with int pos show False by simp
  qed
  then have mpos: "0 < m" by (simp add: m_def)
  have mx: "(of_nat m :: rat) = x * 10 ^ e"
  proof -
    have "(of_nat m :: rat) = of_int (int m)" by simp
    also have "int m = \<lfloor>x * 10 ^ e\<rfloor>" using fl by (simp add: m_def)
    finally show ?thesis using int by simp
  qed
  obtain s z where sz: "strip_zeros m = (s, z)" by (cases "strip_zeros m")
  have ms: "m = s * 10 ^ z" and spos: "0 < s"
    using strip_zeros_correct [OF mpos sz] by simp_all
  have sp: "show_positive x
              = format_digits (show_nat s) (int (length (show_nat s)) + int z - int e)"
    by (simp add: show_positive_def Let_def e_def [symmetric] m_def [symmetric] sz)
  have "parse_unsigned neg (show_positive x)
          = Some (sign_of neg * of_nat s * pow10 (int z - int e), [])"
    unfolding sp using parse_format_digits [OF spos, of neg "int (length (show_nat s)) + int z - int e"]
    by simp
  moreover have "of_nat s * pow10 (int z - int e) = x"
  proof -
    have "pow10 (int z - int e) = pow10 (int z + - int e)" by simp
    also have "\<dots> = 10 ^ z * (1 / 10 ^ e)"
      by (simp only: pow10_add pow10_nat pow10_neg_nat)
    finally have "of_nat s * pow10 (int z - int e) = (of_nat s * 10 ^ z) / 10 ^ e"
      by simp
    also have "(of_nat s * 10 ^ z :: rat) = of_nat m" by (simp add: ms)
    also have "of_nat m / 10 ^ e = x" by (simp add: mx)
    finally show ?thesis .
  qed
  ultimately show ?thesis by (simp add: mult.assoc)
qed

lemma decimal_round_trips:
  assumes "decimal x"
  shows "number_round_trips x"
proof -
  consider (zero) "x = 0" | (neg) "x < 0" | (pos) "0 < x" by linarith
  then show ?thesis
  proof cases
    case zero
    have "JSON_parse ''0'' = Inr (JNumber 0)" by code_simp
    then show ?thesis using zero by (simp add: number_round_trips_def show_number_def)
  next
    case neg
    then have ax: "\<bar>x\<bar> = - x" by simp
    have d: "(- x) * 10 ^ find_scale 400 (- x) 0 = of_int \<lfloor>(- x) * 10 ^ find_scale 400 (- x) 0\<rfloor>"
      using assms unfolding decimal_def ax .
    have p: "parse_unsigned True (show_positive (- x)) = Some (sign_of True * (- x), [])"
      using neg d by (intro parse_show_positive) simp_all
    then have "parse_number (CHR ''-'' # show_positive (- x)) = Some (x, [])"
      by (simp add: parse_number_def sign_of_def)
    then have "JSON_parse (CHR ''-'' # show_positive (- x)) = Inr (JNumber x)"
      by (rule JSON_parse_number_text) simp_all
    then show ?thesis using neg by (simp add: number_round_trips_def show_number_def)
  next
    case pos
    then have ax: "\<bar>x\<bar> = x" by simp
    have d: "x * 10 ^ find_scale 400 x 0 = of_int \<lfloor>x * 10 ^ find_scale 400 x 0\<rfloor>"
      using assms unfolding decimal_def ax .
    have p: "parse_unsigned False (show_positive x) = Some (sign_of False * x, [])"
      using pos d by (rule parse_show_positive)
    note h = parse_unsigned_head [OF p]
    then obtain a u where t: "show_positive x = a # u" by (cases "show_positive x") auto
    have a: "is_digit a" using h t by simp
    then have "a \<noteq> CHR ''-''" by (auto simp: is_digit_def)
    then have "parse_number (show_positive x) = Some (x, [])"
      using p t by (simp add: parse_number_def sign_of_def)
    then have "JSON_parse (show_positive x) = Inr (JNumber x)"
      using h by (intro JSON_parse_number_text) simp_all
    then show ?thesis using pos by (simp add: number_round_trips_def show_number_def)
  qed
qed


section \<open>Round trip through the ledger\<close>

lemma saveLedgerEntry_success_state:
  assumes "fst (saveLedgerEntry rt envelope st) = Inr ()"
  shows "valid_envelope rt envelope \<and> files st ''./output'' = None \<and> LEDGER_PATH \<notin> dirs st
         \<and> snd (saveLedgerEntry rt envelope st)
             = st\<lparr>dirs := insert ''./output'' (dirs st),
                  files := (files st)(LEDGER_PATH \<mapsto> prior_content st @ ledger_line envelope)\<rparr>"
proof -
  have v: "valid_envelope rt envelope"
  proof (cases "validateEnvelope rt envelope")
    case (Inl e)
    then show ?thesis using assms by (simp add: saveLedgerEntry_invalid)
  next
    case (Inr u)
    then show ?thesis using validateEnvelope_ok_iff [of rt envelope] by simp
  qed
  note s = saveLedgerEntry_valid [OF v, of st]
  have a: "files st ''./output'' = None"
  proof (rule ccontr)
    assume "files st ''./output'' \<noteq> None"
    then show False using assms s by simp
  qed
  have b: "LEDGER_PATH \<notin> dirs st"
  proof
    assume "LEDGER_PATH \<in> dirs st"
    then show False using assms s a by simp
  qed
  from v a b s show ?thesis by simp
qed

lemma prior_content_after_save:
  "prior_content (st\<lparr>dirs := d, files := (files st)(LEDGER_PATH \<mapsto> text)\<rparr>) = text"
  by (simp add: prior_content_def)

lemma append_all_success:
  assumes "fst (append_all rt es st) = Inr ()"
  shows "prior_content (snd (append_all rt es st))
           = prior_content st @ lines_text (map (\<lambda>e. JSON_stringify (envelope_json e)) es)
         \<and> (es \<noteq> [] \<longrightarrow> files (snd (append_all rt es st)) LEDGER_PATH \<noteq> None)
         \<and> (es = [] \<longrightarrow> snd (append_all rt es st) = st)
         \<and> (\<forall>e \<in> set es. valid_envelope rt e)"
  using assms
proof (induction es arbitrary: st)
  case Nil
  then show ?case by (simp add: lines_text_def)
next
  case (Cons e es)
  obtain r st1 where s: "saveLedgerEntry rt e st = (r, st1)"
    by (cases "saveLedgerEntry rt e st")
  have r: "r = Inr ()"
  proof (cases r)
    case (Inl err)
    with s Cons.prems show ?thesis by simp
  next
    case (Inr u)
    then show ?thesis by simp
  qed
  then have ok: "fst (saveLedgerEntry rt e st) = Inr ()" using s by simp
  note st = saveLedgerEntry_success_state [OF ok]
  have st1: "st1 = st\<lparr>dirs := insert ''./output'' (dirs st),
                       files := (files st)(LEDGER_PATH \<mapsto> prior_content st @ ledger_line e)\<rparr>"
    using st s by simp
  have rec: "append_all rt (e # es) st = append_all rt es st1"
    using s r by simp
  then have "fst (append_all rt es st1) = Inr ()" using Cons.prems by simp
  note ih = Cons.IH [OF this]
  have pc: "prior_content st1 = prior_content st @ ledger_line e"
    unfolding st1 by (rule prior_content_after_save)
  have f1: "files st1 LEDGER_PATH \<noteq> None" unfolding st1 by simp
  have keep: "files (snd (append_all rt es st1)) LEDGER_PATH \<noteq> None"
  proof (cases "es = []")
    case True
    then show ?thesis using ih f1 by simp
  next
    case False
    then show ?thesis using ih by simp
  qed
  show ?case
    unfolding rec using ih pc keep st
    by (simp add: lines_text_def ledger_line_def)
qed

lemma parse_lines_envelopes:
  assumes "\<forall>e \<in> set es. number_round_trips (confidence (contract e))"
  shows "parse_lines (map (\<lambda>e. JSON_stringify (envelope_json e)) es) = Inr (map envelope_json es)"
  using assms by (induction es) (simp_all add: JSON_parse_envelope)

text \<open>
  Claim C5. Take a ledger file that is absent or empty and any sequence of envelopes whose
  appends all succeed (they are then valid), each with a decimal number as its
  confidence. Then \<open>readLedger\<close> returns exactly one value per envelope,
  in the order of the appends, and each value is the envelope that was appended: reading
  its fields gives back every field of that envelope.
\<close>

theorem readLedger_round_trip:
  assumes "fst (append_all rt es st) = Inr ()"
    and "ledger_absent_or_empty st"
    and "\<forall>e \<in> set es. decimal (confidence (contract e))"
  shows "readLedger (snd (append_all rt es st)) LEDGER_PATH = Inr (map envelope_json es)
         \<and> map envelope_of_json (map envelope_json es) = map Some es
         \<and> (\<forall>e \<in> set es. valid_envelope rt e)"
proof -
  note a = append_all_success [OF assms(1)]
  have nr: "\<forall>e \<in> set es. number_round_trips (confidence (contract e))"
    using assms(3) decimal_round_trips by blast
  have p0: "prior_content st = []"
    using assms(2) by (auto simp: ledger_absent_or_empty_def prior_content_def)
  let ?ls = "map (\<lambda>e. JSON_stringify (envelope_json e)) es"
  have fr: "\<forall>l \<in> set ?ls. framed l"
    by (simp add: envelope_text_framed)
  have rd: "readLedger (snd (append_all rt es st)) LEDGER_PATH = Inr (map envelope_json es)"
  proof (cases "files (snd (append_all rt es st)) LEDGER_PATH")
    case None
    then have e: "es = []" using a by auto
    then have "snd (append_all rt es st) = st" by simp
    moreover have "LEDGER_PATH \<notin> dirs st"
      using assms(2) None e by (auto simp: ledger_absent_or_empty_def)
    ultimately show ?thesis
      using None e by (simp add: readLedger_def Deno_readTextFile_def)
  next
    case (Some content)
    then have "content = prior_content (snd (append_all rt es st))"
      by (simp add: prior_content_def)
    then have "content = lines_text ?ls" using a p0 by simp
    then have "ledger_lines content = ?ls"
      using ledger_lines_lines_text [OF fr] by simp
    then show ?thesis
      using Some by (simp add: readLedger_existing parse_lines_envelopes [OF nr])
  qed
  have "map envelope_of_json (map envelope_json es) = map Some es"
    by (simp add: envelope_of_json_inverse)
  with rd a show ?thesis by blast
qed

lemma reviewed_envelope_valid: "valid_envelope sample_runtime reviewed_envelope"
  by (simp add: valid_envelope_def business_rules_hold_def sample_runtime_def
      reviewed_envelope_def sample_contract_def falsy_def)

lemma sample_numbers_decimal: "decimal (19 / 20)" "decimal (17 / 20)"
  by code_simp+

theorem readLedger_round_trip_witness:
  "fst (append_all sample_runtime [sample_envelope, reviewed_envelope] empty_fs) = Inr ()
   \<and> ledger_absent_or_empty empty_fs
   \<and> decimal (confidence (contract sample_envelope))
   \<and> decimal (confidence (contract reviewed_envelope))
   \<and> readLedger (snd (append_all sample_runtime [sample_envelope, reviewed_envelope] empty_fs))
         LEDGER_PATH
       = Inr [envelope_json sample_envelope, envelope_json reviewed_envelope]"
proof -
  have s1: "saveLedgerEntry sample_runtime sample_envelope empty_fs
              = (Inr (), empty_fs\<lparr>dirs := insert ''./output'' (dirs empty_fs),
                    files := (files empty_fs)(LEDGER_PATH \<mapsto>
                      prior_content empty_fs @ ledger_line sample_envelope)\<rparr>)"
    by (simp add: saveLedgerEntry_valid [OF sample_envelope_valid] empty_fs_def)
  define st1 where "st1 = empty_fs\<lparr>dirs := insert ''./output'' (dirs empty_fs),
                    files := (files empty_fs)(LEDGER_PATH \<mapsto>
                      prior_content empty_fs @ ledger_line sample_envelope)\<rparr>"
  have c: "files st1 ''./output'' = None" "LEDGER_PATH \<notin> dirs st1"
    by (simp_all add: st1_def empty_fs_def LEDGER_PATH_def)
  have s2: "fst (saveLedgerEntry sample_runtime reviewed_envelope st1) = Inr ()"
    by (simp add: saveLedgerEntry_valid [OF reviewed_envelope_valid] c)
  obtain r2 st2 where p2: "saveLedgerEntry sample_runtime reviewed_envelope st1 = (r2, st2)"
    by (cases "saveLedgerEntry sample_runtime reviewed_envelope st1")
  with s2 have r2: "r2 = Inr ()" by simp
  have h1: "fst (append_all sample_runtime [sample_envelope, reviewed_envelope] empty_fs) = Inr ()"
    using s1 p2 r2 by (simp add: st1_def)
  have h2: "ledger_absent_or_empty empty_fs"
    by (simp add: ledger_absent_or_empty_def empty_fs_def)
  have h3: "\<forall>e \<in> set [sample_envelope, reviewed_envelope]. decimal (confidence (contract e))"
    by (simp add: sample_envelope_def reviewed_envelope_def sample_contract_def
        sample_numbers_decimal)
  have n1: "decimal (confidence (contract sample_envelope))"
    and n2: "decimal (confidence (contract reviewed_envelope))"
    using h3 by simp_all
  have "readLedger (snd (append_all sample_runtime [sample_envelope, reviewed_envelope] empty_fs))
          LEDGER_PATH
        = Inr [envelope_json sample_envelope, envelope_json reviewed_envelope]"
    using readLedger_round_trip [OF h1 h2 h3] by simp
  with h1 h2 n1 n2 show ?thesis by blast
qed


section \<open>Every serialised value reads back\<close>















section \<open>The appended line\<close>













end
